theory Spec2Isabelle
  imports Main "HOL-Library.Sublist"
begin

section \<open>Strings and the regular expressions of \<open>crawler.ts\<close>\<close>

text \<open>
  JavaScript strings are modelled as \<^typ>\<open>string\<close>: lists of 8-bit characters, so the
  model covers ASCII text. \<open>s.includes(t)\<close> is \<^term>\<open>sublist t s\<close>, a regular expression
  anchored with \<open>^\<close> is \<^const>\<open>prefix\<close>, one anchored with \<open>$\<close> (no \<open>m\<close> flag) is
  \<^const>\<open>suffix\<close>.
\<close>

definition is_digit :: "char \<Rightarrow> bool" where
  \<comment> \<open>the class \<open>\d\<close>\<close>
  "is_digit c = (c \<in> set ''0123456789'')"

definition is_hexdash :: "char \<Rightarrow> bool" where
  \<comment> \<open>the class \<open>[a-f0-9-]\<close>\<close>
  "is_hexdash c = (c \<in> set ''abcdef0123456789-'')"

definition is_slug_char :: "char \<Rightarrow> bool" where
  \<comment> \<open>the class \<open>[a-z0-9-]\<close>\<close>
  "is_slug_char c = (c \<in> set ''abcdefghijklmnopqrstuvwxyz0123456789-'')"

definition is_line_terminator :: "char \<Rightarrow> bool" where
  \<comment> \<open>what \<open>.\<close> does not match (without the \<open>s\<close> flag)\<close>
  "is_line_terminator c = (c = CHR 0x0A \<or> c = CHR 0x0D)"

definition lower_char :: "char \<Rightarrow> char" where
  "lower_char c =
     (case map_of (zip ''ABCDEFGHIJKLMNOPQRSTUVWXYZ'' ''abcdefghijklmnopqrstuvwxyz'') c of
        Some l \<Rightarrow> l | None \<Rightarrow> c)"

definition toLowerCase :: "string \<Rightarrow> string" where
  "toLowerCase s = map lower_char s"

text \<open>\<open>/\/(w1|w2|...)/i.test(s)\<close>: some alternative follows a slash somewhere in \<open>s\<close>,
  letter case ignored.\<close>

definition test_slash_word :: "string list \<Rightarrow> string \<Rightarrow> bool" where
  "test_slash_word ws s = list_ex (\<lambda>w. sublist (CHR ''/'' # w) (toLowerCase s)) ws"

text \<open>\<open>/\.(e1|e2|...)$/i.test(s)\<close>: \<open>s\<close> ends with a dot and one of the extensions.\<close>

definition test_extension :: "string list \<Rightarrow> string \<Rightarrow> bool" where
  "test_extension es s = list_ex (\<lambda>e. suffix (CHR ''.'' # e) (toLowerCase s)) es"

text \<open>\<open>/\/(d1|d2|...)\//i.test(s)\<close>: a path component equal to one of the words.\<close>

definition test_directory :: "string list \<Rightarrow> string \<Rightarrow> bool" where
  "test_directory ds s = list_ex (\<lambda>d. sublist (CHR ''/'' # d @ ''/'') (toLowerCase s)) ds"

text \<open>\<open>s.replace(/\/$/, '')\<close>: one trailing slash is removed.\<close>

definition strip_trailing_slash :: "string \<Rightarrow> string" where
  "strip_trailing_slash s = (if s \<noteq> [] \<and> last s = CHR ''/'' then butlast s else s)"

text \<open>
  \<open>s.replace(/\/\d+/g, '/:id')\<close>: scanning from the left, a slash followed by at least one
  digit is replaced, with all the digits that follow it (the quantifier is greedy), by
  \<open>/:id\<close>; the scan goes on after the match.
\<close>

function replace_ids :: "string \<Rightarrow> string" where
  "replace_ids [] = []"
| "replace_ids (c # cs) =
     (if c = CHR ''/'' \<and> takeWhile is_digit cs \<noteq> []
      then ''/:id'' @ replace_ids (dropWhile is_digit cs)
      else c # replace_ids cs)"
  by pat_completeness auto
termination
  by (relation "measure length") (auto simp: less_Suc_eq_le length_dropWhile_le)

text \<open>
  \<open>s.replace(/\/[a-f0-9-]{20,}/g, '/:uuid')\<close>: a slash followed by a run of at least 20
  characters of \<open>[a-f0-9-]\<close> is replaced, with the whole run, by \<open>/:uuid\<close>. A shorter run
  gives no match at this slash, and no match starts inside the run, since the pattern
  starts with a slash.
\<close>

function replace_uuids :: "string \<Rightarrow> string" where
  "replace_uuids [] = []"
| "replace_uuids (c # cs) =
     (if c = CHR ''/'' \<and> 20 \<le> length (takeWhile is_hexdash cs)
      then ''/:uuid'' @ replace_uuids (dropWhile is_hexdash cs)
      else c # replace_uuids cs)"
  by pat_completeness auto
termination
  by (relation "measure length") (auto simp: less_Suc_eq_le length_dropWhile_le)

text \<open>
  \<open>s.replace(/\?.*$/, '')\<close>: the first question mark after which no line terminator
  occurs is removed with everything behind it.
\<close>

fun strip_query :: "string \<Rightarrow> string" where
  "strip_query [] = []"
| "strip_query (c # cs) =
     (if c = CHR ''?'' \<and> \<not> list_ex is_line_terminator cs then []
      else c # strip_query cs)"

section \<open>The platform\<close>

text \<open>
  The crawler runs on four capabilities that are not part of the repository: the WHATWG
  \<open>URL\<close> class, \<open>fetch\<close> of node-fetch, \<open>cheerio.load\<close>, and the clock. They are
  parameters of the model.
\<close>

record URL =
  hostname :: string
  pathname :: string
  href :: string

datatype response =
  NetworkError  \<comment> \<open>\<open>fetch\<close> or \<open>response.text()\<close> rejects: control reaches \<open>catch\<close>\<close>
  | Response bool string  \<comment> \<open>\<open>response.ok\<close> and the body text\<close>

record element =
  attr_href :: "string option"  \<comment> \<open>\<open>$(el).attr('href')\<close>, \<open>undefined\<close> as \<open>None\<close>\<close>
  el_text :: string  \<comment> \<open>\<open>$(el).text()\<close>\<close>

type_synonym cheerio = "string \<Rightarrow> element list"
  \<comment> \<open>a loaded document: the elements a selector matches, in document order\<close>

record platform =
  new_URL :: "string \<Rightarrow> URL option"
    \<comment> \<open>\<open>new URL(s)\<close>, \<open>None\<close> when it throws\<close>
  new_URL_base :: "string \<Rightarrow> string \<Rightarrow> URL option"
    \<comment> \<open>\<open>new URL(s, base)\<close>\<close>
  fetch :: "string list \<Rightarrow> string \<Rightarrow> response"
    \<comment> \<open>the answer to a request, which may depend on the requests made before it\<close>
  cheerio_load :: "string \<Rightarrow> cheerio"
  now_ISO :: string
    \<comment> \<open>\<open>new Date().toISOString()\<close>\<close>

section \<open>The URL pattern\<close>

definition extractUrlPattern :: "platform \<Rightarrow> string \<Rightarrow> string" where
  "extractUrlPattern pf u =
     (case new_URL pf u of
        Some urlObj \<Rightarrow> strip_query (replace_uuids (replace_ids (pathname urlObj)))
      | None \<Rightarrow> u)"


section \<open>The data model of \<open>types.ts\<close>\<close>

datatype PageTemplateType =
  PDP | PLP | CATEGORY | HOME | SEARCH | CART | CHECKOUT | ACCOUNT | CONTENT | UNKNOWN

record PageTemplate =
  type :: PageTemplateType
  urlPattern :: string
  exampleUrls :: "string list"
  characteristics :: "string list"
  detectedElements :: "string list"

datatype EntityType = Entity_CATEGORY | Entity_SUBCATEGORY | Entity_BRAND | Entity_COLLECTION

text \<open>The fields \<open>type\<close>, \<open>name\<close> and \<open>url\<close> of an entity carry the prefix \<open>entity_\<close>.
  The optional field \<open>metadata\<close> is never written by the crawler and is left out.\<close>

record SiteEntity =
  entity_type :: EntityType
  entity_name :: string
  entity_url :: string
  parentCategory :: "string option"

text \<open>
  A JavaScript \<open>Map\<close> keeps its entries in insertion order: it is a list of pairs.
  \<open>set\<close> replaces the value of a key that is present, where it stands, and appends a new
  key.
\<close>

type_synonym ('k, 'v) js_map = "('k \<times> 'v) list"

definition Map_has :: "('k, 'v) js_map \<Rightarrow> 'k \<Rightarrow> bool" where
  "Map_has m k = (map_of m k \<noteq> None)"

definition Map_get :: "('k, 'v) js_map \<Rightarrow> 'k \<Rightarrow> 'v option" where
  "Map_get m k = map_of m k"

fun Map_set :: "('k, 'v) js_map \<Rightarrow> 'k \<Rightarrow> 'v \<Rightarrow> ('k, 'v) js_map" where
  "Map_set [] k v = [(k, v)]"
| "Map_set ((k', v') # m) k v =
     (if k' = k then (k, v) # m else (k', v') # Map_set m k v)"

record SiteStructure =
  domain :: string
  analyzedAt :: string
  templates :: "(PageTemplateType, PageTemplate) js_map"
  entities :: "SiteEntity list"
  siteMap :: "string list"
  robotsTxt :: "string option"

text \<open>The objects \<open>{ text, url }\<close> that the two link extractors return.\<close>

record link =
  link_text :: string
  link_url :: string

section \<open>The crawler\<close>

text \<open>
  The fields of the class, and with them the log of the requests sent to the network.
  The log is not a field of the class: it records for what each request was made, its
  URL and the answer, so that properties of the requests can be stated. The set
  \<open>visitedUrls\<close> is the list of its members in insertion order; \<open>add\<close> is only called
  on a string that is not a member, so \<open>size\<close> is the length of the list. \<open>maxPages\<close>, a
  \<open>number\<close> that nothing checks, is an integer here and may be negative.
\<close>

datatype purpose = Robots | Root | Candidate | Sample

type_synonym request = "purpose \<times> string \<times> response"

record SiteCrawler =
  baseUrl :: string
  visitedUrls :: "string list"
  maxPages :: int
  requests :: "request list"

definition request_url :: "request \<Rightarrow> string" where
  "request_url r = fst (snd r)"

text \<open>\<open>new SiteCrawler(baseUrl, maxPages)\<close>; \<open>maxPages\<close> is 50 when it is left out.\<close>

definition SiteCrawler_new :: "string \<Rightarrow> int \<Rightarrow> SiteCrawler" where
  "SiteCrawler_new u n =
     \<lparr>baseUrl = strip_trailing_slash u, visitedUrls = [], maxPages = n, requests = []\<rparr>"

definition SiteCrawler_default :: "string \<Rightarrow> SiteCrawler" where
  "SiteCrawler_default u = SiteCrawler_new u 50"

definition send :: "platform \<Rightarrow> purpose \<Rightarrow> string \<Rightarrow> SiteCrawler \<Rightarrow> response \<times> SiteCrawler" where
  \<comment> \<open>a call of \<open>fetch(url)\<close>, logged\<close>
  "send pf why u c =
     (let r = fetch pf (map request_url (requests c)) u
      in (r, c\<lparr>requests := requests c @ [(why, u, r)]\<rparr>))"

definition fetchRobotsTxt :: "platform \<Rightarrow> SiteCrawler \<Rightarrow> string option \<times> SiteCrawler" where
  "fetchRobotsTxt pf c =
     (let (r, c') = send pf Robots (baseUrl c @ ''/robots.txt'') c
      in (case r of Response True body \<Rightarrow> (Some body, c') | _ \<Rightarrow> (None, c')))"

text \<open>\<open>fetchPage\<close> returns the page text or \<open>null\<close>, here \<open>None\<close>.\<close>

definition fetchPage :: "platform \<Rightarrow> purpose \<Rightarrow> string \<Rightarrow> SiteCrawler \<Rightarrow> string option \<times> SiteCrawler" where
  "fetchPage pf why u c =
     (if u \<in> set (visitedUrls c) then (None, c)
      else
        let (r, c') = send pf why u (c\<lparr>visitedUrls := visitedUrls c @ [u]\<rparr>)
        in (case r of Response True body \<Rightarrow> (Some body, c') | _ \<Rightarrow> (None, c')))"

definition resolveUrl :: "platform \<Rightarrow> SiteCrawler \<Rightarrow> string \<Rightarrow> string" where
  "resolveUrl pf c u =
     (case new_URL_base pf u (baseUrl c) of Some urlObj \<Rightarrow> href urlObj | None \<Rightarrow> u)"

definition shouldVisit :: "platform \<Rightarrow> SiteCrawler \<Rightarrow> string \<Rightarrow> bool" where
  "shouldVisit pf c u =
     (case new_URL pf u of
        None \<Rightarrow> False
      | Some urlObj \<Rightarrow>
          (case new_URL pf (baseUrl c) of
             None \<Rightarrow> False
           | Some baseUrlObj \<Rightarrow>
               if hostname urlObj \<noteq> hostname baseUrlObj then False
               else \<not> (test_extension
                          [''jpg'', ''jpeg'', ''png'', ''gif'', ''svg'', ''pdf'', ''zip'', ''css'',
                           ''js'', ''json'', ''xml''] u
                        \<or> test_directory [''api'', ''cdn'', ''static'', ''assets'', ''media''] u)))"


subsection \<open>Selectors\<close>

text \<open>Selector strings are written as in the source; \<open>quoted s\<close> is \<open>s\<close> between
  double quotes.\<close>

definition quoted :: "string \<Rightarrow> string" where
  "quoted s = CHR 0x22 # s @ [CHR 0x22]"

definition count :: "cheerio \<Rightarrow> string \<Rightarrow> nat" where
  \<comment> \<open>\<open>$(selector).length\<close>\<close>
  "count doc selector = length (doc selector)"

subsection \<open>The classifier\<close>

definition indicators :: "cheerio \<Rightarrow> bool list" where
  "indicators doc =
     [length (filter (\<lambda>el. sublist ''add'' (toLowerCase (el_text el))
                          \<and> sublist ''cart'' (toLowerCase (el_text el)))
        (doc (''[class*='' @ quoted ''add-to-cart'' @ ''], [class*='' @ quoted ''addToCart''
              @ ''], button''))) > 0,
      count doc (''[class*='' @ quoted ''product-title'' @ ''], [class*=''
                 @ quoted ''productTitle'' @ ''], h1[class*='' @ quoted ''product'' @ '']'') > 0,
      count doc (''[class*='' @ quoted ''product-image'' @ ''], [class*=''
                 @ quoted ''productImage'' @ ''], .product-gallery'') > 0,
      count doc (''[class*='' @ quoted ''price'' @ '']'') > 0
        \<and> count doc (''[class*='' @ quoted ''price'' @ '']'') < 10,
      count doc (''[class*='' @ quoted ''sku'' @ ''], [class*='' @ quoted ''product-id'' @ '']'') > 0]"

definition isProductDetailPage :: "cheerio \<Rightarrow> bool" where
  "isProductDetailPage doc = (length (filter (\<lambda>b. b) (indicators doc)) \<ge> 2)"

definition isCategoryPage :: "cheerio \<Rightarrow> bool" where
  "isCategoryPage doc =
     (let productLinks = count doc (''a[href*='' @ quoted ''/product'' @ ''], a[href*=''
                           @ quoted ''/p/'' @ ''], a[class*='' @ quoted ''product'' @ '']'');
          hasFilters = count doc (''[class*='' @ quoted ''filter'' @ ''], [class*=''
                           @ quoted ''facet'' @ ''], [class*='' @ quoted ''refine'' @ '']'') > 0;
          hasPagination = count doc (''[class*='' @ quoted ''pagination'' @ ''], [class*=''
                           @ quoted ''pager'' @ '']'') > 0
      in productLinks > 5 \<or> (productLinks > 2 \<and> (hasFilters \<or> hasPagination)))"

definition isCartPage :: "cheerio \<Rightarrow> string \<Rightarrow> bool" where
  "isCartPage doc u =
     (sublist ''/cart'' u \<or> sublist ''/basket'' u
      \<or> count doc (''[class*='' @ quoted ''cart'' @ ''], [class*='' @ quoted ''basket'' @ '']'') > 3)"

definition isSearchPage :: "cheerio \<Rightarrow> string \<Rightarrow> bool" where
  "isSearchPage doc u =
     (sublist ''search'' u \<or> sublist ''?q='' u \<or> sublist ''?query='' u
      \<or> count doc (''[class*='' @ quoted ''search-results'' @ '']'') > 0)"

definition classify :: "SiteCrawler \<Rightarrow> cheerio \<Rightarrow> string \<Rightarrow> PageTemplateType \<times> string list" where
  \<comment> \<open>the chain of \<open>if\<close>/\<open>else if\<close> in \<open>analyzePageTemplate\<close>: the type and the characteristics\<close>
  "classify c doc u =
     (if isProductDetailPage doc then
        (PDP, [''Has product title'', ''Has add to cart button'', ''Has product images''])
      else if isCategoryPage doc then
        (CATEGORY, [''Has product grid'', ''Has filters/facets'', ''Has multiple product links''])
      else if u = baseUrl c \<or> u = baseUrl c @ ''/'' then
        (HOME, [''Root URL'', ''Has hero banner'', ''Has navigation menu''])
      else if isCartPage doc u then
        (CART, [''Has cart items'', ''Has checkout button''])
      else if isSearchPage doc u then
        (SEARCH, [''Has search results'', ''Has search query''])
      else (UNKNOWN, []))"

definition detect_elements :: "cheerio \<Rightarrow> string list" where
  "detect_elements doc =
     (if count doc (''nav, header nav, .navigation, [role='' @ quoted ''navigation'' @ '']'') > 0
      then [''Navigation''] else [])
     @ (if count doc ''footer'' > 0 then [''Footer''] else [])
     @ (if count doc (''[class*='' @ quoted ''product'' @ ''], [class*='' @ quoted ''item'' @ '']'') > 5
        then [''Product Grid''] else [])"

definition analyzePageTemplate :: "platform \<Rightarrow> SiteCrawler \<Rightarrow> string \<Rightarrow> string \<Rightarrow> PageTemplate" where
  "analyzePageTemplate pf c u html =
     (let doc = cheerio_load pf html;
          (ty, chars) = classify c doc u
      in \<lparr>type = ty, urlPattern = extractUrlPattern pf u, exampleUrls = [u],
          characteristics = chars, detectedElements = detect_elements doc\<rparr>)"

subsection \<open>The link extractors\<close>

definition is_space :: "char \<Rightarrow> bool" where
  \<comment> \<open>the ASCII characters that \<open>trim\<close> removes\<close>
  "is_space c = (c \<in> {CHR 0x09, CHR 0x0A, CHR 0x0B, CHR 0x0C, CHR 0x0D, CHR '' ''})"

definition trim :: "string \<Rightarrow> string" where
  "trim s = rev (dropWhile is_space (rev (dropWhile is_space s)))"

definition simple_path :: "string \<Rightarrow> bool" where
  \<comment> \<open>\<open>/^\/[a-z0-9-]+\/?$/.test(s)\<close>\<close>
  "simple_path s =
     (case s of
        [] \<Rightarrow> False
      | c # cs \<Rightarrow> c = CHR ''/'' \<and> takeWhile is_slug_char cs \<noteq> []
                 \<and> dropWhile is_slug_char cs \<in> {[], ''/''})"

definition excluded :: "string \<Rightarrow> bool" where
  \<comment> \<open>some pattern of \<open>excludePatterns\<close> matches\<close>
  "excluded s =
     (test_slash_word [''login'', ''signup'', ''account'', ''profile'', ''cart'', ''checkout'',
                       ''about'', ''contact'', ''help'', ''faq'', ''privacy'', ''terms''] s
      \<or> test_extension [''jpg'', ''jpeg'', ''png'', ''gif'', ''svg'', ''pdf'', ''zip''] s
      \<or> prefix ''mailto:'' s \<or> prefix ''tel:'' s \<or> prefix ''#'' s
      \<or> test_slash_word [''search'', ''blog'', ''news'', ''article''] s)"

definition looksLikeCategoryLink :: "string \<Rightarrow> string \<Rightarrow> bool" where
  "looksLikeCategoryLink h t =
     (if excluded h \<or> excluded t then False
      else if test_slash_word [''category'', ''categories'', ''c'', ''cat'', ''collection'',
                               ''collections'', ''dept'', ''department''] h
              \<or> simple_path h then True
      else list_ex (\<lambda>w. sublist w (toLowerCase t))
             [''shop'', ''men'', ''women'', ''kids'', ''sale'', ''new'', ''electronics'',
              ''clothing'', ''home''])"

text \<open>The callbacks of \<open>each\<close>: the set \<open>seen\<close> and the list \<open>links\<close> after one more
  element.\<close>

definition category_link :: "element \<Rightarrow> string list \<times> link list \<Rightarrow> string list \<times> link list" where
  "category_link el acc =
     (let (seen, links) = acc; t = trim (el_text el)
      in case attr_href el of
           None \<Rightarrow> acc
         | Some h \<Rightarrow>
             if h \<noteq> [] \<and> t \<noteq> [] \<and> h \<notin> set seen \<and> looksLikeCategoryLink h t
             then (seen @ [h], links @ [\<lparr>link_text = t, link_url = h\<rparr>])
             else acc)"

definition extractCategoryLinks :: "cheerio \<Rightarrow> link list" where
  "extractCategoryLinks doc =
     take 20 (snd (fold (\<lambda>selector. fold category_link (doc selector))
       [''nav a'', ''header nav a'', ''[role='' @ quoted ''navigation'' @ ''] a'',
        ''.navigation a'', ''.menu a'', ''.nav-menu a'',
        ''[class*='' @ quoted ''category'' @ ''] a'',
        ''[class*='' @ quoted ''navigation'' @ ''] a'']
       ([], [])))"

definition product_link :: "element \<Rightarrow> string list \<times> link list \<Rightarrow> string list \<times> link list" where
  "product_link el acc =
     (let (seen, links) = acc; t = trim (el_text el)
      in case attr_href el of
           None \<Rightarrow> acc
         | Some h \<Rightarrow>
             if h \<noteq> [] \<and> h \<notin> set seen
             then (seen @ [h], links @ [\<lparr>link_text = t, link_url = h\<rparr>])
             else acc)"

definition extractProductLinks :: "cheerio \<Rightarrow> link list" where
  "extractProductLinks doc =
     take 10 (snd (fold (\<lambda>selector. fold product_link (doc selector))
       [''a[href*='' @ quoted ''/product'' @ '']'', ''a[href*='' @ quoted ''/p/'' @ '']'',
        ''a[href*='' @ quoted ''/item'' @ '']'', ''a[class*='' @ quoted ''product'' @ '']'',
        ''[class*='' @ quoted ''product'' @ ''] a'']
       ([], [])))"

subsection \<open>The crawl\<close>

text \<open>
  The loop of \<open>analyzeSite\<close> works on the three accumulators \<open>templates\<close>, \<open>entities\<close> and
  \<open>siteMap\<close>, here the fields of the structure that is returned, and on the crawler.
  \<open>sample_product\<close> is the second \<open>if\<close> of the loop body, \<open>visit_link\<close> the body from the
  call of \<open>fetchPage\<close> on, \<open>crawl_links\<close> the loop: \<open>break\<close> returns the state, \<open>continue\<close>
  goes on with the remaining links. A text is taken as a page when it is truthy: neither
  \<open>null\<close> nor the empty string.
\<close>

definition sample_product ::
  "platform \<Rightarrow> string \<Rightarrow> SiteStructure \<times> SiteCrawler \<Rightarrow> SiteStructure \<times> SiteCrawler" where
  "sample_product pf html s =
     (let (st, c) = s; productLinks = extractProductLinks (cheerio_load pf html)
      in case productLinks of
           [] \<Rightarrow> s
         | first # _ \<Rightarrow>
             if Map_has (templates st) PDP then s
             else
               let productUrl = resolveUrl pf c (link_url first);
                   (productHtml, c') = fetchPage pf Sample productUrl c
               in (case productHtml of
                     None \<Rightarrow> (st, c')
                   | Some h \<Rightarrow>
                       if h = [] then (st, c')
                       else
                         let pdpTemplate = analyzePageTemplate pf c' productUrl h
                         in if type pdpTemplate = PDP
                            then (st\<lparr>templates := Map_set (templates st) PDP pdpTemplate\<rparr>, c')
                            else (st, c')))"

definition visit_link ::
  "platform \<Rightarrow> link \<Rightarrow> string \<Rightarrow> SiteStructure \<times> SiteCrawler \<Rightarrow> SiteStructure \<times> SiteCrawler" where
  "visit_link pf l fullUrl s =
     (let (st, c) = s; (html, c') = fetchPage pf Candidate fullUrl c
      in case html of
           None \<Rightarrow> (st, c')
         | Some h \<Rightarrow>
             if h = [] then (st, c')
             else
               let st1 = st\<lparr>siteMap := siteMap st @ [fullUrl]\<rparr>;
                   template = analyzePageTemplate pf c' fullUrl h
               in if type template = CATEGORY \<or> type template = PLP
                  then
                    let st2 = st1\<lparr>entities := entities st1 @
                                   [\<lparr>entity_type = Entity_CATEGORY, entity_name = link_text l,
                                     entity_url = fullUrl, parentCategory = None\<rparr>]\<rparr>;
                        st3 = (if \<not> Map_has (templates st2) (type template)
                               then st2\<lparr>templates := Map_set (templates st2) (type template) template\<rparr>
                               else st2)
                    in sample_product pf h (st3, c')
                  else (st1, c'))"

fun crawl_links ::
  "platform \<Rightarrow> link list \<Rightarrow> SiteStructure \<times> SiteCrawler \<Rightarrow> SiteStructure \<times> SiteCrawler" where
  "crawl_links pf [] s = s"
| "crawl_links pf (l # ls) s =
     (if int (length (visitedUrls (snd s))) \<ge> maxPages (snd s) then s
      else
        let fullUrl = resolveUrl pf (snd s) (link_url l)
        in if \<not> shouldVisit pf (snd s) fullUrl then crawl_links pf ls s
           else crawl_links pf ls (visit_link pf l fullUrl s))"

definition analyzeSite :: "platform \<Rightarrow> SiteCrawler \<Rightarrow> SiteStructure \<times> SiteCrawler" where
  "analyzeSite pf c =
     (let (robots, c0) = fetchRobotsTxt pf c;
          st0 = \<lparr>domain = baseUrl c0, analyzedAt = now_ISO pf, templates = [], entities = [],
                 siteMap = [], robotsTxt = robots\<rparr>;
          (homepageHtml, c1) = fetchPage pf Root (baseUrl c0) c0
      in case homepageHtml of
           None \<Rightarrow> (st0, c1)
         | Some h \<Rightarrow>
             if h = [] then (st0, c1)
             else
               let homeTemplate = analyzePageTemplate pf c1 (baseUrl c1) h;
                   st1 = st0\<lparr>templates := Map_set (templates st0) HOME homeTemplate\<rparr>
               in crawl_links pf (extractCategoryLinks (cheerio_load pf h)) (st1, c1))"

text \<open>A run: \<open>new SiteCrawler(url, maxPages).analyzeSite()\<close>.\<close>

definition analyze :: "platform \<Rightarrow> string \<Rightarrow> int \<Rightarrow> SiteStructure \<times> SiteCrawler" where
  "analyze pf u n = analyzeSite pf (SiteCrawler_new u n)"


section \<open>An example platform\<close>

text \<open>
  The examples below run the crawler on a concrete platform. \<open>URL_model\<close> is the \<open>URL\<close>
  constructor on the strings the examples use:
  \<^item> \<open>http://host/path?query\<close> and \<open>https://host/path?query\<close>, written in lower case, the
    host a domain name whose last label starts with a letter, the path without dot
    segments and without characters that the parser would escape; an empty path is
    \<open>/\<close>;
  \<^item> \<open>scheme:rest\<close> for a scheme that is not special, where \<open>rest\<close> does not start with a
    slash: the URL has an opaque path, \<open>rest\<close>, and no host;
  \<^item> a string with no scheme (its first character is not a letter, or a character that
    no scheme contains comes before the first colon, or there is no colon) is not a
    URL: the constructor throws.
  On any other string \<open>URL_model\<close> answers \<open>None\<close> as well; the examples use none.
\<close>

record URL_origin = URL +
  origin :: string

definition is_lower_alpha :: "char \<Rightarrow> bool" where
  "is_lower_alpha c = (c \<in> set ''abcdefghijklmnopqrstuvwxyz'')"

definition is_scheme_char :: "char \<Rightarrow> bool" where
  "is_scheme_char c = (is_slug_char c \<or> c = CHR ''+'' \<or> c = CHR ''.'')"

definition is_host_char :: "char \<Rightarrow> bool" where
  "is_host_char c = (is_slug_char c \<or> c = CHR ''.'')"

definition is_path_char :: "char \<Rightarrow> bool" where
  "is_path_char c =
     (is_slug_char c \<or> c \<in> set ''ABCDEFGHIJKLMNOPQRSTUVWXYZ_/:=,.'')"

definition is_query_char :: "char \<Rightarrow> bool" where
  "is_query_char c = (is_slug_char c \<or> c \<in> set ''ABCDEFGHIJKLMNOPQRSTUVWXYZ_=&.?'')"

definition is_opaque_char :: "char \<Rightarrow> bool" where
  "is_opaque_char c = (is_slug_char c \<or> c \<in> set '':,.'')"

definition parse_http :: "string \<Rightarrow> string \<Rightarrow> URL_origin option" where
  \<comment> \<open>the scheme, and what follows \<open>://\<close>\<close>
  "parse_http scheme rest =
     (let host = takeWhile is_host_char rest;
          tail = dropWhile is_host_char rest;
          path = takeWhile (\<lambda>c. c \<noteq> CHR ''?'') tail;
          query = dropWhile (\<lambda>c. c \<noteq> CHR ''?'') tail;
          last_label = rev (takeWhile (\<lambda>c. c \<noteq> CHR ''.'') (rev host))
      in if host \<noteq> [] \<and> hd host \<noteq> CHR ''.'' \<and> \<not> sublist ''..'' host
            \<and> \<not> sublist ''xn--'' host
            \<and> last_label \<noteq> [] \<and> is_lower_alpha (hd last_label)
            \<and> (path = [] \<or> hd path = CHR ''/'')
            \<and> list_all is_path_char path \<and> \<not> sublist ''/.'' path
            \<and> list_all is_query_char query
         then Some \<lparr>hostname = host,
                    pathname = (if path = [] then ''/'' else path),
                    href = scheme @ ''://'' @ host @ (if path = [] then ''/'' else path) @ query,
                    origin = scheme @ ''://'' @ host\<rparr>
         else None)"

definition URL_parse :: "string \<Rightarrow> URL_origin option" where
  "URL_parse s =
     (let scheme = takeWhile (\<lambda>c. c \<noteq> CHR '':'') s;
          rest = drop (Suc (length scheme)) s
      in if scheme = [] \<or> \<not> is_lower_alpha (hd scheme) \<or> \<not> list_all is_scheme_char scheme
            \<or> length s \<le> length scheme then None
         else if scheme \<in> set [''http'', ''https''] then
           (if prefix ''//'' rest then parse_http scheme (drop 2 rest) else None)
         else if scheme \<in> set [''ftp'', ''ws'', ''wss'', ''file''] then None
         else if rest \<noteq> [] \<and> hd rest \<noteq> CHR ''/'' \<and> list_all is_opaque_char rest
           then Some \<lparr>hostname = [], pathname = rest, href = s, origin = ''null''\<rparr>
         else None)"

definition URL_model :: "string \<Rightarrow> URL option" where
  "URL_model s = map_option URL.truncate (URL_parse s)"

text \<open>\<open>new URL(s, base)\<close>: the base is parsed first; an absolute \<open>s\<close> is taken as it is,
  and an \<open>s\<close> that starts with one slash replaces path and query of a base with a host.\<close>

definition URL_model_base :: "string \<Rightarrow> string \<Rightarrow> URL option" where
  "URL_model_base s base =
     (case URL_parse base of
        None \<Rightarrow> None
      | Some b \<Rightarrow>
          (case URL_model s of
             Some u \<Rightarrow> Some u
           | None \<Rightarrow>
               if prefix ''/'' s \<and> \<not> prefix ''//'' s \<and> hostname b \<noteq> []
               then URL_model (origin b @ s) else None))"

text \<open>
  The example site. Its home page shows six products and a \<open>nav\<close> element with the links
  \<open>/robots.txt\<close>, \<open>/shoes\<close>, \<open>/sale\<close> and \<open>/login\<close>; \<open>/shoes\<close> lists six products, the first
  of them \<open>/product/1234\<close>; \<open>/sale\<close> answers with status 200 and an empty body; every
  other address answers 404. The text \<open><teaser>\<close> is a page with an add-to-cart button and
  nothing else. The answers do not depend on earlier requests. A page
  text stands for the document that \<open>cheerio.load\<close> makes of it, given as the table of
  the selectors that match something.
\<close>

definition anchor :: "string \<Rightarrow> string \<Rightarrow> element" where
  "anchor h t = \<lparr>attr_href = Some h, el_text = t\<rparr>"

definition product_anchors :: "element list" where
  "product_anchors =
     [anchor ''/product/1234'' ''Runner'', anchor ''/product/1235'' ''Walker'',
      anchor ''/product/1236'' ''Hiker'', anchor ''/product/1237'' ''Sprinter'',
      anchor ''/product/1238'' ''Climber'', anchor ''/product/1239'' ''Dancer'']"

definition category_selector :: string where
  "category_selector = ''a[href*='' @ quoted ''/product'' @ ''], a[href*=''
     @ quoted ''/p/'' @ ''], a[class*='' @ quoted ''product'' @ '']''"

definition navigation_selector :: string where
  "navigation_selector = ''nav, header nav, .navigation, [role='' @ quoted ''navigation'' @ '']''"

definition shop_documents :: "(string \<times> (string \<times> element list) list) list" where
  "shop_documents =
     [(''<home>'',
        [(navigation_selector, [\<lparr>attr_href = None, el_text = ''Menu''\<rparr>]),
         (''nav a'',
           [anchor ''/robots.txt'' ''Crawler statement'', anchor ''/shoes'' '' Shoes '',
            anchor ''/sale'' ''Sale'', anchor ''/login'' ''Sign In'']),
         (category_selector, product_anchors)]),
      (''<outlet>'',
        [(navigation_selector, [\<lparr>attr_href = None, el_text = ''Menu''\<rparr>]),
         (''nav a'',
           [anchor ''/'' ''Home'', anchor ''/deal'' ''Deal'', anchor ''/shoes'' ''Shoes''])]),
      (''<shoes>'',
        [(category_selector, product_anchors),
         (''a[href*='' @ quoted ''/product'' @ '']'', product_anchors)]),
      (''<product>'',
        [(''[class*='' @ quoted ''add-to-cart'' @ ''], [class*='' @ quoted ''addToCart''
            @ ''], button'',
           [\<lparr>attr_href = None, el_text = ''Add to Cart''\<rparr>]),
         (''[class*='' @ quoted ''product-title'' @ ''], [class*='' @ quoted ''productTitle''
            @ ''], h1[class*='' @ quoted ''product'' @ '']'',
           [\<lparr>attr_href = None, el_text = ''Runner''\<rparr>]),
         (''[class*='' @ quoted ''price'' @ '']'',
           [\<lparr>attr_href = None, el_text = ''59.00''\<rparr>]),
         (''[class*='' @ quoted ''product'' @ ''], [class*='' @ quoted ''item'' @ '']'',
           [\<lparr>attr_href = None, el_text = ''Runner''\<rparr>])]),
      (''<teaser>'',
        [(''[class*='' @ quoted ''add-to-cart'' @ ''], [class*='' @ quoted ''addToCart''
            @ ''], button'',
           [\<lparr>attr_href = None, el_text = ''Add to Cart''\<rparr>])])]"

definition shop_load :: "string \<Rightarrow> cheerio" where
  "shop_load html selector =
     (case map_of shop_documents html of
        None \<Rightarrow> []
      | Some table \<Rightarrow> (case map_of table selector of None \<Rightarrow> [] | Some els \<Rightarrow> els))"

definition shop_fetch :: "string list \<Rightarrow> string \<Rightarrow> response" where
  "shop_fetch earlier u =
     (case map_of
        [(''https://example.com'', Response True ''<home>''),
         (''https://example.com/robots.txt'', Response True ''User-agent: *''),
         (''https://example.com/shoes'', Response True ''<shoes>''),
         (''https://example.com/sale'', Response True []),
         (''https://example.com/product/1234'', Response True ''<product>'')] u of
        Some r \<Rightarrow> r
      | None \<Rightarrow> Response False ''Not Found'')"

definition shop :: platform where
  "shop = \<lparr>new_URL = URL_model, new_URL_base = URL_model_base, fetch = shop_fetch,
           cheerio_load = shop_load, now_ISO = ''2024-01-01T00:00:00.000Z''\<rparr>"

text \<open>
  A second site with the same documents. Its home page, \<open><outlet>\<close>, shows no product and
  has a navigation with the links \<open>/\<close>, \<open>/deal\<close> and \<open>/shoes\<close>; the root is served with and
  without the trailing slash; \<open>/deal\<close> is a product page; there is no \<open>robots.txt\<close>.
\<close>

definition outlet_fetch :: "string list \<Rightarrow> string \<Rightarrow> response" where
  "outlet_fetch earlier u =
     (case map_of
        [(''https://example.com'', Response True ''<outlet>''),
         (''https://example.com/'', Response True ''<outlet>''),
         (''https://example.com/deal'', Response True ''<product>''),
         (''https://example.com/shoes'', Response True ''<shoes>''),
         (''https://example.com/product/1234'', Response True ''<product>'')] u of
        Some r \<Rightarrow> r
      | None \<Rightarrow> Response False ''Not Found'')"

definition outlet :: platform where
  "outlet = \<lparr>new_URL = URL_model, new_URL_base = URL_model_base, fetch = outlet_fetch,
             cheerio_load = shop_load, now_ISO = ''2024-01-01T00:00:00.000Z''\<rparr>"


section \<open>Notions for the properties of a run\<close>

text \<open>The requests that \<open>fetchPage\<close> made: all but the one for \<open>robots.txt\<close>.\<close>

definition page_requests :: "SiteCrawler \<Rightarrow> request list" where
  "page_requests c = filter (\<lambda>r. fst r \<noteq> Robots) (requests c)"

text \<open>The text that \<open>fetchPage\<close> and \<open>fetchRobotsTxt\<close> return for an answer, and the test
  \<open>if (html)\<close>.\<close>

fun text_of :: "response \<Rightarrow> string option" where
  "text_of (Response True body) = Some body"
| "text_of (Response False body) = None"
| "text_of NetworkError = None"

definition truthy :: "string option \<Rightarrow> bool" where
  "truthy h = (h \<noteq> None \<and> h \<noteq> Some [])"

text \<open>A request for a candidate link that was answered with a page.\<close>

definition served :: "request \<Rightarrow> bool" where
  "served r = (fst r = Candidate \<and> truthy (text_of (snd (snd r))))"

text \<open>What holds of the accumulators and the crawler whenever the loop of \<open>analyzeSite\<close>
  is at its head.\<close>

definition crawl_inv :: "SiteStructure \<times> SiteCrawler \<Rightarrow> bool" where
  "crawl_inv s =
     (distinct (visitedUrls (snd s))
      \<and> map request_url (page_requests (snd s)) = visitedUrls (snd s)
      \<and> siteMap (fst s) = map request_url (filter served (requests (snd s)))
      \<and> length (siteMap (fst s)) < length (visitedUrls (snd s))
      \<and> set (map entity_url (entities (fst s))) \<subseteq> set (visitedUrls (snd s))
      \<and> distinct (map entity_url (entities (fst s)))
      \<and> distinct (map fst (templates (fst s))))"

text \<open>The crawler after \<open>fetchPage\<close> has sent a request for a URL that was not visited.\<close>

definition logged :: "purpose \<Rightarrow> string \<Rightarrow> platform \<Rightarrow> SiteCrawler \<Rightarrow> SiteCrawler" where
  "logged why u pf c =
     c\<lparr>visitedUrls := visitedUrls c @ [u],
       requests := requests c @ [(why, u, fetch pf (map request_url (requests c)) u)]\<rparr>"

text \<open>The entity that the loop records for a link.\<close>

definition category_entity :: "link \<Rightarrow> string \<Rightarrow> SiteEntity" where
  "category_entity l u =
     \<lparr>entity_type = Entity_CATEGORY, entity_name = link_text l, entity_url = u,
      parentCategory = None\<rparr>"

text \<open>
  The first two requests of a run on a new crawler: the answers to the request for
  \<open>robots.txt\<close> and to the request for the root page, the crawler after them, and the
  structure that is returned when the root page is missing.
\<close>

definition robots_response :: "platform \<Rightarrow> string \<Rightarrow> response" where
  "robots_response pf u = fetch pf [] (strip_trailing_slash u @ ''/robots.txt'')"

definition root_response :: "platform \<Rightarrow> string \<Rightarrow> response" where
  "root_response pf u =
     fetch pf [strip_trailing_slash u @ ''/robots.txt''] (strip_trailing_slash u)"

definition at_root :: "platform \<Rightarrow> string \<Rightarrow> int \<Rightarrow> SiteCrawler" where
  "at_root pf u n =
     \<lparr>baseUrl = strip_trailing_slash u, visitedUrls = [strip_trailing_slash u], maxPages = n,
      requests = [(Robots, strip_trailing_slash u @ ''/robots.txt'', robots_response pf u),
                  (Root, strip_trailing_slash u, root_response pf u)]\<rparr>"

definition no_pages :: "platform \<Rightarrow> string \<Rightarrow> SiteStructure" where
  "no_pages pf u =
     \<lparr>domain = strip_trailing_slash u, analyzedAt = now_ISO pf, templates = [], entities = [],
      siteMap = [], robotsTxt = text_of (robots_response pf u)\<rparr>"

text \<open>
  A path is a list of segments, each behind a slash. \<open>generalize_segment\<close> is the rule of
  the specification for one segment: digits only, \<open>:id\<close>; 20 or more characters of
  \<open>[a-f0-9-]\<close>, \<open>:uuid\<close>. The patterns of the code are not anchored at the end of a segment;
  a segment is regular when that makes no difference: it has no leading digits unless it
  is all digits, and fewer than 20 leading characters of \<open>[a-f0-9-]\<close> unless it is made of
  them. (A segment has no slash; no path of a URL has a question mark.)
\<close>

definition join_path :: "string list \<Rightarrow> string" where
  "join_path segs = concat (map (\<lambda>seg. CHR ''/'' # seg) segs)"

definition generalize_segment :: "string \<Rightarrow> string" where
  "generalize_segment seg =
     (if seg \<noteq> [] \<and> list_all is_digit seg then '':id''
      else if 20 \<le> length seg \<and> list_all is_hexdash seg then '':uuid''
      else seg)"

definition regular_segment :: "string \<Rightarrow> bool" where
  "regular_segment seg =
     (CHR ''/'' \<notin> set seg \<and> CHR ''?'' \<notin> set seg
      \<and> (list_all is_digit seg
           \<or> (takeWhile is_digit seg = []
               \<and> (list_all is_hexdash seg \<or> length (takeWhile is_hexdash seg) < 20))))"

text \<open>
  The template map of a run, read off the log. \<open>page_of\<close> is the template of the page that
  answered a request. A request writes a key when it was answered with a page and either
  it is the request for the root page and the key is \<open>HOME\<close>, or it is a request for a
  candidate link, the key is \<open>CATEGORY\<close> or \<open>PLP\<close> and the page has that type, or it is a
  request for a product sample, the key is \<open>PDP\<close> and the page has that type. \<open>recorded\<close>
  is the template of the first request that writes the key.
\<close>

definition page_of :: "platform \<Rightarrow> SiteCrawler \<Rightarrow> request \<Rightarrow> PageTemplate" where
  "page_of pf c r =
     analyzePageTemplate pf c (request_url r)
       (case text_of (snd (snd r)) of Some h \<Rightarrow> h | None \<Rightarrow> [])"

definition writes :: "platform \<Rightarrow> SiteCrawler \<Rightarrow> PageTemplateType \<Rightarrow> request \<Rightarrow> bool" where
  "writes pf c k r =
     (truthy (text_of (snd (snd r)))
      \<and> ((k = HOME \<and> fst r = Root)
           \<or> ((k = CATEGORY \<or> k = PLP) \<and> fst r = Candidate \<and> type (page_of pf c r) = k)
           \<or> (k = PDP \<and> fst r = Sample \<and> type (page_of pf c r) = PDP)))"

definition recorded :: "platform \<Rightarrow> SiteCrawler \<Rightarrow> PageTemplateType \<Rightarrow> PageTemplate option" where
  "recorded pf c k = map_option (page_of pf c) (List.find (writes pf c k) (requests c))"

definition templates_inv :: "platform \<Rightarrow> SiteStructure \<times> SiteCrawler \<Rightarrow> bool" where
  "templates_inv pf s = (\<forall>k. Map_get (templates (fst s)) k = recorded pf (snd s) k)"

section \<open>Properties of the URL pattern\<close>

lemma replace_ids_slash: "prefix ''/'' p \<Longrightarrow> prefix ''/'' (replace_ids p)"
  by (cases p) auto

lemma replace_uuids_slash: "prefix ''/'' p \<Longrightarrow> prefix ''/'' (replace_uuids p)"
  by (cases p) auto

lemma strip_query_slash: "prefix ''/'' p \<Longrightarrow> prefix ''/'' (strip_query p)"
  by (cases p) auto

lemma pattern_of_path_slash:
  "prefix ''/'' p \<Longrightarrow> prefix ''/'' (strip_query (replace_uuids (replace_ids p)))"
  by (intro strip_query_slash replace_uuids_slash replace_ids_slash)

lemma URL_parse_slash: "prefix ''/'' s \<Longrightarrow> URL_parse s = None"
proof (cases s)
  case Nil
  then show ?thesis by (simp add: URL_parse_def)
next
  case (Cons c cs)
  assume "prefix ''/'' s"
  with Cons have c: "c = CHR ''/''" by simp
  have "hd (takeWhile (\<lambda>c. c \<noteq> CHR '':'') s) = CHR ''/''" using Cons c by simp
  moreover have "\<not> is_lower_alpha (CHR ''/'')" by (simp add: is_lower_alpha_def)
  ultimately show ?thesis by (simp add: URL_parse_def Let_def)
qed

lemma shop_new_URL_slash: "prefix ''/'' s \<Longrightarrow> new_URL shop s = None"
  by (simp add: shop_def URL_model_def URL_parse_slash)

lemma shop_product_URL:
  "new_URL shop ''https://example.com/product/1234'' =
     Some \<lparr>hostname = ''example.com'', pathname = ''/product/1234'',
           href = ''https://example.com/product/1234''\<rparr>"
  by code_simp

lemma shop_uuid_URL:
  "new_URL shop ''https://example.com/p/abc123def456abc123def456'' =
     Some \<lparr>hostname = ''example.com'', pathname = ''/p/abc123def456abc123def456'',
           href = ''https://example.com/p/abc123def456abc123def456''\<rparr>"
  by code_simp

lemma shop_query_URL:
  "new_URL shop ''https://example.com/category/electronics?page=2'' =
     Some \<lparr>hostname = ''example.com'', pathname = ''/category/electronics'',
           href = ''https://example.com/category/electronics?page=2''\<rparr>"
  by code_simp

lemma pattern_of_product_path:
  "strip_query (replace_uuids (replace_ids ''/product/1234'')) = ''/product/:id''"
  by code_simp

lemma pattern_of_uuid_path:
  "strip_query (replace_uuids (replace_ids ''/p/abc123def456abc123def456'')) = ''/p/:uuid''"
  by code_simp

lemma pattern_of_category_path:
  "strip_query (replace_uuids (replace_ids ''/category/electronics'')) = ''/category/electronics''"
  by code_simp

text \<open>
  C3, as stated: \<open>extractUrlPattern\<close> is idempotent on every string. It is not: the
  pattern of \<open>a:b:c\<close>, a URL with the opaque path \<open>b:c\<close>, is \<open>b:c\<close>, which is a URL again,
  with the pattern \<open>c\<close>.
\<close>

theorem extractUrlPattern_not_idempotent:
  "extractUrlPattern shop (extractUrlPattern shop ''a:b:c'') \<noteq> extractUrlPattern shop ''a:b:c''"
  by code_simp

text \<open>
  C3, amended: on a platform whose \<open>URL\<close> constructor rejects every string that starts
  with a slash, \<open>extractUrlPattern\<close> applied to its own result returns that result, for
  every string that is not a URL and for every URL whose path starts with a slash (the
  URLs with a host, as all those of \<open>http\<close> and \<open>https\<close>).
\<close>

theorem extractUrlPattern_idempotent:
  assumes "\<And>s. prefix ''/'' s \<Longrightarrow> new_URL pf s = None"
    and "\<And>urlObj. new_URL pf u = Some urlObj \<Longrightarrow> prefix ''/'' (pathname urlObj)"
  shows "extractUrlPattern pf (extractUrlPattern pf u) = extractUrlPattern pf u"
proof (cases "new_URL pf u")
  case None
  then show ?thesis by (simp add: extractUrlPattern_def)
next
  case (Some urlObj)
  let ?r = "strip_query (replace_uuids (replace_ids (pathname urlObj)))"
  have "prefix ''/'' ?r"
    using assms(2) [OF Some] by (rule pattern_of_path_slash)
  then have "new_URL pf ?r = None" by (rule assms(1))
  with Some show ?thesis by (simp add: extractUrlPattern_def)
qed

theorem extractUrlPattern_idempotent_witness:
  "new_URL shop ''https://example.com/product/1234'' =
     Some \<lparr>hostname = ''example.com'', pathname = ''/product/1234'',
           href = ''https://example.com/product/1234''\<rparr>
   \<and> extractUrlPattern shop (extractUrlPattern shop ''https://example.com/product/1234'')
       = extractUrlPattern shop ''https://example.com/product/1234''
   \<and> extractUrlPattern shop ''https://example.com/product/1234'' = ''/product/:id''"
proof -
  have "extractUrlPattern shop (extractUrlPattern shop ''https://example.com/product/1234'')
        = extractUrlPattern shop ''https://example.com/product/1234''"
  proof (rule extractUrlPattern_idempotent)
    fix s :: string
    assume "prefix ''/'' s"
    then show "new_URL shop s = None" by (rule shop_new_URL_slash)
  next
    fix urlObj
    assume "new_URL shop ''https://example.com/product/1234'' = Some urlObj"
    then have "pathname urlObj = ''/product/1234''" by (auto simp: shop_product_URL)
    then show "prefix ''/'' (pathname urlObj)" by simp
  qed
  moreover have "extractUrlPattern shop ''https://example.com/product/1234'' = ''/product/:id''"
    by code_simp
  ultimately show ?thesis using shop_product_URL by (intro conjI)
qed

subsection \<open>The rule for segments\<close>

lemma join_path_head: "join_path segs = [] \<or> hd (join_path segs) = CHR ''/''"
  by (cases segs) (simp_all add: join_path_def)

lemma join_path_Cons: "join_path (seg # segs) = CHR ''/'' # seg @ join_path segs"
  by (simp add: join_path_def)

lemma takeWhile_segment:
  assumes "list_all P seg" "rest = [] \<or> \<not> P (hd rest)"
  shows "takeWhile P (seg @ rest) = seg" "dropWhile P (seg @ rest) = rest"
proof -
  from assms(2) have "takeWhile P rest = []" "dropWhile P rest = rest"
    by (cases rest; simp)+
  with assms(1) show "takeWhile P (seg @ rest) = seg" "dropWhile P (seg @ rest) = rest"
    by (simp_all add: list_all_iff)
qed

lemma takeWhile_stops:
  assumes "\<not> list_all P seg"
  shows "takeWhile P (seg @ rest) = takeWhile P seg"
proof -
  from assms obtain x where "x \<in> set seg" "\<not> P x" by (auto simp: list_all_iff)
  then show ?thesis by (rule takeWhile_append1)
qed

lemma replace_ids_noslash:
  "CHR ''/'' \<notin> set xs \<Longrightarrow> replace_ids (xs @ ys) = xs @ replace_ids ys"
  by (induction xs) auto

lemma replace_uuids_noslash:
  "CHR ''/'' \<notin> set xs \<Longrightarrow> replace_uuids (xs @ ys) = xs @ replace_uuids ys"
  by (induction xs) auto

lemma strip_query_noquery: "CHR ''?'' \<notin> set xs \<Longrightarrow> strip_query xs = xs"
  by (induction xs) auto

lemma replace_ids_segment:
  assumes "CHR ''/'' \<notin> set seg" "list_all is_digit seg \<or> takeWhile is_digit seg = []"
    and "rest = [] \<or> hd rest = CHR ''/''"
  shows "replace_ids (CHR ''/'' # seg @ rest)
         = CHR ''/'' # (if seg \<noteq> [] \<and> list_all is_digit seg then '':id'' else seg)
             @ replace_ids rest"
proof -
  have stop: "rest = [] \<or> \<not> is_digit (hd rest)"
    using assms(3) by (auto simp: is_digit_def)
  show ?thesis
  proof (cases "list_all is_digit seg")
    case True
    then have "takeWhile is_digit (seg @ rest) = seg" "dropWhile is_digit (seg @ rest) = rest"
      using stop by (rule takeWhile_segment)+
    then show ?thesis using True by (simp add: replace_ids_noslash)
  next
    case False
    with assms(2) have "takeWhile is_digit seg = []" by simp
    moreover have "takeWhile is_digit (seg @ rest) = takeWhile is_digit seg"
      using False by (rule takeWhile_stops)
    ultimately show ?thesis using False assms(1) by (simp add: replace_ids_noslash)
  qed
qed

lemma replace_uuids_segment:
  assumes "CHR ''/'' \<notin> set seg"
    and "list_all is_hexdash seg \<or> length (takeWhile is_hexdash seg) < 20"
    and "rest = [] \<or> hd rest = CHR ''/''"
  shows "replace_uuids (CHR ''/'' # seg @ rest)
         = CHR ''/'' # (if 20 \<le> length seg \<and> list_all is_hexdash seg then '':uuid'' else seg)
             @ replace_uuids rest"
proof -
  have stop: "rest = [] \<or> \<not> is_hexdash (hd rest)"
    using assms(3) by (auto simp: is_hexdash_def)
  show ?thesis
  proof (cases "list_all is_hexdash seg")
    case True
    then have "takeWhile is_hexdash (seg @ rest) = seg" "dropWhile is_hexdash (seg @ rest) = rest"
      using stop by (rule takeWhile_segment)+
    then show ?thesis using True assms(1) by (simp add: replace_uuids_noslash)
  next
    case False
    with assms(2) have "length (takeWhile is_hexdash seg) < 20" by simp
    moreover have "takeWhile is_hexdash (seg @ rest) = takeWhile is_hexdash seg"
      using False by (rule takeWhile_stops)
    ultimately show ?thesis using False assms(1) by (simp add: replace_uuids_noslash)
  qed
qed

lemma replace_ids_path_head:
  "rest = [] \<or> hd rest = CHR ''/'' \<Longrightarrow> replace_ids rest = [] \<or> hd (replace_ids rest) = CHR ''/''"
  by (cases rest) auto

lemma pattern_of_segment:
  assumes "regular_segment seg" "rest = [] \<or> hd rest = CHR ''/''"
  shows "replace_uuids (replace_ids (CHR ''/'' # seg @ rest))
         = CHR ''/'' # generalize_segment seg @ replace_uuids (replace_ids rest)"
proof -
  let ?mid = "if seg \<noteq> [] \<and> list_all is_digit seg then '':id'' else seg"
  have ns: "CHR ''/'' \<notin> set seg"
    and dg: "list_all is_digit seg \<or> takeWhile is_digit seg = []"
    using assms(1) by (auto simp: regular_segment_def)
  have one: "replace_ids (CHR ''/'' # seg @ rest) = CHR ''/'' # ?mid @ replace_ids rest"
    using ns dg assms(2) by (rule replace_ids_segment)
  have rest': "replace_ids rest = [] \<or> hd (replace_ids rest) = CHR ''/''"
    using assms(2) by (rule replace_ids_path_head)
  have id_hex: "takeWhile is_hexdash '':id'' = []"
    by (simp add: is_hexdash_def)
  have ns': "CHR ''/'' \<notin> set ?mid" using ns by simp
  have hx: "list_all is_hexdash ?mid \<or> length (takeWhile is_hexdash ?mid) < 20"
  proof (cases "seg \<noteq> [] \<and> list_all is_digit seg")
    case True
    then show ?thesis by (simp add: id_hex)
  next
    case False
    show ?thesis
    proof (cases "seg = []")
      case True
      then show ?thesis by simp
    next
      case nonempty: False
      with False have "\<not> list_all is_digit seg" by simp
      with assms(1) have "list_all is_hexdash seg \<or> length (takeWhile is_hexdash seg) < 20"
        by (auto simp: regular_segment_def)
      with False show ?thesis by simp
    qed
  qed
  have two: "replace_uuids (CHR ''/'' # ?mid @ replace_ids rest)
      = CHR ''/'' # (if 20 \<le> length ?mid \<and> list_all is_hexdash ?mid then '':uuid'' else ?mid)
          @ replace_uuids (replace_ids rest)"
    using ns' hx rest' by (rule replace_uuids_segment)
  have id_not_hex: "\<not> list_all is_hexdash '':id''"
    by (simp add: is_hexdash_def)
  have "(if 20 \<le> length ?mid \<and> list_all is_hexdash ?mid then '':uuid'' else ?mid)
        = generalize_segment seg"
    by (simp add: generalize_segment_def id_not_hex)
  with one two show ?thesis by simp
qed

lemma pattern_of_path:
  "list_all regular_segment segs \<Longrightarrow>
   replace_uuids (replace_ids (join_path segs)) = join_path (map generalize_segment segs)"
proof (induction segs)
  case Nil
  show ?case by (simp add: join_path_def)
next
  case (Cons seg segs)
  then have "regular_segment seg" and rest: "list_all regular_segment segs" by simp_all
  then have "replace_uuids (replace_ids (CHR ''/'' # seg @ join_path segs))
      = CHR ''/'' # generalize_segment seg @ replace_uuids (replace_ids (join_path segs))"
    using join_path_head by (intro pattern_of_segment)
  with Cons.IH [OF rest] show ?case by (simp add: join_path_Cons)
qed

lemma generalize_segment_noquery:
  "CHR ''?'' \<notin> set seg \<Longrightarrow> CHR ''?'' \<notin> set (generalize_segment seg)"
  by (simp add: generalize_segment_def)

lemma generalized_path_noquery:
  "list_all regular_segment segs \<Longrightarrow> CHR ''?'' \<notin> set (join_path (map generalize_segment segs))"
  by (induction segs)
    (simp_all add: join_path_def regular_segment_def generalize_segment_noquery)

lemma pattern_of_regular_path:
  assumes "list_all regular_segment segs"
  shows "strip_query (replace_uuids (replace_ids (join_path segs)))
         = join_path (map generalize_segment segs)"
  using assms by (simp add: pattern_of_path strip_query_noquery generalized_path_noquery)

text \<open>
  C4, as stated: \<open>extractUrlPattern\<close> maps \<open>/product/1234\<close> to \<open>/product/:id\<close>, and it
  replaces every segment that is long and made of hex digits and dashes by \<open>:uuid\<close>. The
  string \<open>/product/1234\<close> is not a URL: \<open>new URL\<close> throws and the string is returned as
  it is. And a segment of hex digits and dashes that starts with a digit, for which the
  rule gives \<open>:uuid\<close>, loses its leading digits to \<open>:id\<close> and keeps the rest; one with
  hex digits in upper case is left as it is.
\<close>

theorem extractUrlPattern_not_as_stated:
  "extractUrlPattern shop ''/product/1234'' = ''/product/1234''
   \<and> extractUrlPattern shop ''/product/1234'' \<noteq> ''/product/:id''
   \<and> join_path (map generalize_segment [''o'', ''123e4567-e89b-12d3-a456-426614174000''])
       = ''/o/:uuid''
   \<and> extractUrlPattern shop ''https://example.com/o/123e4567-e89b-12d3-a456-426614174000''
       = ''/o/:ide4567-e89b-12d3-a456-426614174000''
   \<and> extractUrlPattern shop ''https://example.com/o/ABC123DEF456ABC123DEF456''
       = ''/o/ABC123DEF456ABC123DEF456''"
  by code_simp

text \<open>
  C4, amended: \<open>extractUrlPattern\<close> takes a URL and returns its path, without the query
  string, rewritten segment by segment. When every segment is regular, a segment of
  digits only becomes \<open>:id\<close>, a segment of 20 or more characters of \<open>[a-f0-9-]\<close> becomes
  \<open>:uuid\<close>, and any other segment stays. So a URL with the path \<open>/product/1234\<close> gives
  \<open>/product/:id\<close>, one with the path \<open>/p/abc123def456abc123def456\<close> gives \<open>/p/:uuid\<close>, one
  with the path \<open>/category/electronics\<close>, whatever its query string, gives
  \<open>/category/electronics\<close>; a string that is not a URL is returned unchanged.
\<close>

theorem extractUrlPattern_rule:
  "(new_URL pf u = Some urlObj \<and> pathname urlObj = join_path segs
      \<and> list_all regular_segment segs
      \<longrightarrow> extractUrlPattern pf u = join_path (map generalize_segment segs))
   \<and> (new_URL pf u1 = Some o1 \<and> pathname o1 = ''/product/1234''
      \<longrightarrow> extractUrlPattern pf u1 = ''/product/:id'')
   \<and> (new_URL pf u2 = Some o2 \<and> pathname o2 = ''/p/abc123def456abc123def456''
      \<longrightarrow> extractUrlPattern pf u2 = ''/p/:uuid'')
   \<and> (new_URL pf u3 = Some o3 \<and> pathname o3 = ''/category/electronics''
      \<longrightarrow> extractUrlPattern pf u3 = ''/category/electronics'')
   \<and> (new_URL pf u4 = None \<longrightarrow> extractUrlPattern pf u4 = u4)"
proof (intro conjI impI)
  assume "new_URL pf u = Some urlObj \<and> pathname urlObj = join_path segs
      \<and> list_all regular_segment segs"
  then show "extractUrlPattern pf u = join_path (map generalize_segment segs)"
    unfolding extractUrlPattern_def by (simp add: pattern_of_regular_path)
next
  assume "new_URL pf u1 = Some o1 \<and> pathname o1 = ''/product/1234''"
  then show "extractUrlPattern pf u1 = ''/product/:id''"
    unfolding extractUrlPattern_def using pattern_of_product_path by simp
next
  assume "new_URL pf u2 = Some o2 \<and> pathname o2 = ''/p/abc123def456abc123def456''"
  then show "extractUrlPattern pf u2 = ''/p/:uuid''"
    unfolding extractUrlPattern_def using pattern_of_uuid_path by simp
next
  assume "new_URL pf u3 = Some o3 \<and> pathname o3 = ''/category/electronics''"
  then show "extractUrlPattern pf u3 = ''/category/electronics''"
    unfolding extractUrlPattern_def using pattern_of_category_path by simp
next
  assume "new_URL pf u4 = None"
  then show "extractUrlPattern pf u4 = u4"
    unfolding extractUrlPattern_def by simp
qed

lemma uuid_path_segments:
  "''/p/abc123def456abc123def456'' = join_path [''p'', ''abc123def456abc123def456'']"
  by (simp add: join_path_def)

lemma uuid_path_regular:
  "list_all regular_segment [''p'', ''abc123def456abc123def456'']"
  by code_simp

lemma uuid_path_generalized:
  "join_path (map generalize_segment [''p'', ''abc123def456abc123def456'']) = ''/p/:uuid''"
  by code_simp

theorem extractUrlPattern_rule_witness:
  "list_all regular_segment [''p'', ''abc123def456abc123def456'']
   \<and> extractUrlPattern shop ''https://example.com/p/abc123def456abc123def456''
       = join_path (map generalize_segment [''p'', ''abc123def456abc123def456''])
   \<and> join_path (map generalize_segment [''p'', ''abc123def456abc123def456'']) = ''/p/:uuid''
   \<and> extractUrlPattern shop ''https://example.com/product/1234'' = ''/product/:id''
   \<and> extractUrlPattern shop ''https://example.com/p/abc123def456abc123def456'' = ''/p/:uuid''
   \<and> extractUrlPattern shop ''https://example.com/category/electronics?page=2''
       = ''/category/electronics''
   \<and> extractUrlPattern shop ''/category/electronics?page=2'' = ''/category/electronics?page=2''"
proof -
  have none: "new_URL shop ''/category/electronics?page=2'' = None"
    by (rule shop_new_URL_slash) simp
  note ex = extractUrlPattern_rule [of shop
        "''https://example.com/p/abc123def456abc123def456''"
        "\<lparr>hostname = ''example.com'', pathname = ''/p/abc123def456abc123def456'',
          href = ''https://example.com/p/abc123def456abc123def456''\<rparr>"
        "[''p'', ''abc123def456abc123def456'']"
        "''https://example.com/product/1234''"
        "\<lparr>hostname = ''example.com'', pathname = ''/product/1234'',
          href = ''https://example.com/product/1234''\<rparr>"
        "''https://example.com/p/abc123def456abc123def456''"
        "\<lparr>hostname = ''example.com'', pathname = ''/p/abc123def456abc123def456'',
          href = ''https://example.com/p/abc123def456abc123def456''\<rparr>"
        "''https://example.com/category/electronics?page=2''"
        "\<lparr>hostname = ''example.com'', pathname = ''/category/electronics'',
          href = ''https://example.com/category/electronics?page=2''\<rparr>"
        "''/category/electronics?page=2''"]
  have "extractUrlPattern shop ''https://example.com/p/abc123def456abc123def456''
       = join_path (map generalize_segment [''p'', ''abc123def456abc123def456''])"
  proof (rule ex [THEN conjunct1, rule_format], intro conjI)
    show "new_URL shop ''https://example.com/p/abc123def456abc123def456'' =
      Some \<lparr>hostname = ''example.com'', pathname = ''/p/abc123def456abc123def456'',
          href = ''https://example.com/p/abc123def456abc123def456''\<rparr>"
      by (rule shop_uuid_URL)
    show "pathname \<lparr>hostname = ''example.com'', pathname = ''/p/abc123def456abc123def456'',
          href = ''https://example.com/p/abc123def456abc123def456''\<rparr>
        = join_path [''p'', ''abc123def456abc123def456'']"
      using uuid_path_segments by simp
    show "list_all regular_segment [''p'', ''abc123def456abc123def456'']"
      by (rule uuid_path_regular)
  qed
  moreover
  have "extractUrlPattern shop ''https://example.com/product/1234'' = ''/product/:id''"
    by (rule ex [THEN conjunct2, THEN conjunct1, rule_format]) (simp add: shop_product_URL)
  moreover
  have "extractUrlPattern shop ''https://example.com/p/abc123def456abc123def456'' = ''/p/:uuid''"
    by (rule ex [THEN conjunct2, THEN conjunct2, THEN conjunct1, rule_format])
      (simp add: shop_uuid_URL)
  moreover
  have "extractUrlPattern shop ''https://example.com/category/electronics?page=2''
        = ''/category/electronics''"
    by (rule ex [THEN conjunct2, THEN conjunct2, THEN conjunct2, THEN conjunct1, rule_format])
      (simp add: shop_query_URL)
  moreover
  have "extractUrlPattern shop ''/category/electronics?page=2'' = ''/category/electronics?page=2''"
    by (rule ex [THEN conjunct2, THEN conjunct2, THEN conjunct2, THEN conjunct2, rule_format])
      (rule none)
  ultimately show ?thesis
    using uuid_path_regular uuid_path_generalized by (intro conjI)
qed

section \<open>Properties of the classifier\<close>

lemma type_analyzePageTemplate:
  "type (analyzePageTemplate pf c u html) = fst (classify c (cheerio_load pf html) u)"
  by (simp add: analyzePageTemplate_def Let_def split_beta)

lemma classify_PDP: "(fst (classify c doc u) = PDP) = isProductDetailPage doc"
  by (simp add: classify_def)

lemma indicators_five:
  "\<exists>a b c d e. indicators doc = [a, b, c, d, e]"
  by (simp add: indicators_def)

lemma two_of_five: "a \<Longrightarrow> b \<Longrightarrow> 2 \<le> length (filter (\<lambda>b. b) [a, b, c, d, e])"
  by simp

lemma price_indicator:
  "(indicators doc ! 3) =
     (0 < count doc (''[class*='' @ quoted ''price'' @ '']'')
      \<and> count doc (''[class*='' @ quoted ''price'' @ '']'') < 10)"
  by (simp add: indicators_def)

text \<open>
  C5: a page is classified as \<open>PDP\<close> exactly when at least two of the five indicators
  hold; the fourth, the price indicator, holds exactly when the page has more than 0 and
  fewer than 10 price elements. So a page with an add-to-cart control, a product title and
  one price element is a \<open>PDP\<close>, and a page with an add-to-cart control and no other
  indicator is not.
\<close>

theorem ProductDetail_two_of_five:
  "(type (analyzePageTemplate pf c u html) = PDP)
     = (2 \<le> length (filter (\<lambda>b. b) (indicators (cheerio_load pf html))))
   \<and> length (indicators doc) = 5
   \<and> (indicators doc ! 3) =
       (0 < count doc (''[class*='' @ quoted ''price'' @ '']'')
        \<and> count doc (''[class*='' @ quoted ''price'' @ '']'') < 10)
   \<and> (indicators (cheerio_load pf h1) ! 0 \<and> indicators (cheerio_load pf h1) ! 1
        \<and> count (cheerio_load pf h1) (''[class*='' @ quoted ''price'' @ '']'') = 1
      \<longrightarrow> type (analyzePageTemplate pf c u1 h1) = PDP)
   \<and> (indicators (cheerio_load pf h2) = [True, False, False, False, False]
      \<longrightarrow> type (analyzePageTemplate pf c u2 h2) \<noteq> PDP)"
proof (intro conjI impI)
  show "(type (analyzePageTemplate pf c u html) = PDP)
     = (2 \<le> length (filter (\<lambda>b. b) (indicators (cheerio_load pf html))))"
    by (simp add: type_analyzePageTemplate classify_PDP isProductDetailPage_def)
  show "length (indicators doc) = 5"
    using indicators_five [of doc] by auto
  show "(indicators doc ! 3) =
       (0 < count doc (''[class*='' @ quoted ''price'' @ '']'')
        \<and> count doc (''[class*='' @ quoted ''price'' @ '']'') < 10)"
    by (rule price_indicator)
next
  let ?d = "cheerio_load pf h1"
  assume h: "indicators ?d ! 0 \<and> indicators ?d ! 1
        \<and> count ?d (''[class*='' @ quoted ''price'' @ '']'') = 1"
  obtain a b c' d e where l: "indicators ?d = [a, b, c', d, e]"
    using indicators_five [of ?d] by blast
  from h l have "a" "b" by simp_all
  then have "2 \<le> length (filter (\<lambda>b. b) (indicators ?d))"
    unfolding l by (rule two_of_five)
  then show "type (analyzePageTemplate pf c u1 h1) = PDP"
    by (simp add: type_analyzePageTemplate classify_PDP isProductDetailPage_def)
next
  assume "indicators (cheerio_load pf h2) = [True, False, False, False, False]"
  then show "type (analyzePageTemplate pf c u2 h2) \<noteq> PDP"
    by (simp add: type_analyzePageTemplate classify_PDP isProductDetailPage_def)
qed

lemma shop_product_indicators:
  "indicators (cheerio_load shop ''<product>'') = [True, True, False, True, False]"
  by code_simp

lemma shop_teaser_indicators:
  "indicators (cheerio_load shop ''<teaser>'') = [True, False, False, False, False]"
  by code_simp

lemma shop_product_price:
  "count (cheerio_load shop ''<product>'') (''[class*='' @ quoted ''price'' @ '']'') = 1"
  by code_simp

theorem ProductDetail_two_of_five_witness:
  "indicators (cheerio_load shop ''<product>'') = [True, True, False, True, False]
   \<and> count (cheerio_load shop ''<product>'') (''[class*='' @ quoted ''price'' @ '']'') = 1
   \<and> type (analyzePageTemplate shop (SiteCrawler_new ''https://example.com'' 10)
      ''https://example.com/product/1234'' ''<product>'') = PDP
   \<and> indicators (cheerio_load shop ''<teaser>'') = [True, False, False, False, False]
   \<and> type (analyzePageTemplate shop (SiteCrawler_new ''https://example.com'' 10)
      ''https://example.com/teaser'' ''<teaser>'') \<noteq> PDP"
proof -
  note t = ProductDetail_two_of_five [of shop "SiteCrawler_new ''https://example.com'' 10" _ _ _ "''<product>''"
      "''https://example.com/product/1234''" "''<teaser>''" "''https://example.com/teaser''"]
  have a: "indicators (cheerio_load shop ''<product>'') ! 0"
    and b: "indicators (cheerio_load shop ''<product>'') ! 1"
    unfolding shop_product_indicators by simp_all
  have "type (analyzePageTemplate shop (SiteCrawler_new ''https://example.com'' 10)
      ''https://example.com/product/1234'' ''<product>'') = PDP"
    by (rule t [THEN conjunct2, THEN conjunct2, THEN conjunct2, THEN conjunct1, rule_format])
      (intro conjI a b shop_product_price)
  moreover
  have "type (analyzePageTemplate shop (SiteCrawler_new ''https://example.com'' 10)
      ''https://example.com/teaser'' ''<teaser>'') \<noteq> PDP"
    by (rule t [THEN conjunct2, THEN conjunct2, THEN conjunct2, THEN conjunct2, rule_format])
      (rule shop_teaser_indicators)
  ultimately show ?thesis
    using shop_product_indicators shop_teaser_indicators shop_product_price by (intro conjI)
qed


section \<open>The invariant of the loop\<close>

lemma text_of_case:
  "(case r of Response True body \<Rightarrow> (Some body, c) | _ \<Rightarrow> (None, c)) = (text_of r, c)"
  by (cases r rule: text_of.cases) simp_all

lemma fetchPage_visited:
  "u \<in> set (visitedUrls c) \<Longrightarrow> fetchPage pf why u c = (None, c)"
  by (simp add: fetchPage_def)

lemma fetchPage_fresh:
  "u \<notin> set (visitedUrls c) \<Longrightarrow>
   fetchPage pf why u c =
     (text_of (fetch pf (map request_url (requests c)) u),
      c\<lparr>visitedUrls := visitedUrls c @ [u],
        requests := requests c @ [(why, u, fetch pf (map request_url (requests c)) u)]\<rparr>)"
  by (simp add: fetchPage_def send_def Let_def text_of_case)

lemma fetchRobotsTxt_eq:
  "fetchRobotsTxt pf c =
     (text_of (fetch pf (map request_url (requests c)) (baseUrl c @ ''/robots.txt'')),
      c\<lparr>requests := requests c @
         [(Robots, baseUrl c @ ''/robots.txt'',
           fetch pf (map request_url (requests c)) (baseUrl c @ ''/robots.txt''))]\<rparr>)"
  by (simp add: fetchRobotsTxt_def send_def Let_def text_of_case)

lemma Map_set_keys:
  "map fst (Map_set m k v) = (if k \<in> set (map fst m) then map fst m else map fst m @ [k])"
proof (induction m)
  case Nil
  show ?case by simp
next
  case (Cons p m)
  show ?case
  proof (cases "fst p = k")
    case True
    then show ?thesis by (cases p) simp
  next
    case False
    with Cons show ?thesis by (cases p) simp
  qed
qed

lemma Map_has_keys: "Map_has m k = (k \<in> set (map fst m))"
  by (simp add: Map_has_def map_of_eq_None_iff)

lemma Map_set_distinct: "distinct (map fst m) \<Longrightarrow> distinct (map fst (Map_set m k v))"
  by (simp add: Map_set_keys)

lemma Map_get_set_other: "k' \<noteq> k \<Longrightarrow> Map_get (Map_set m k v) k' = Map_get m k'"
  by (induction m) (auto simp: Map_get_def)

lemma Map_get_set_same: "Map_get (Map_set m k v) k = Some v"
  by (induction m) (auto simp: Map_get_def)

lemma Map_has_get: "Map_has m k = (Map_get m k \<noteq> None)"
  by (simp add: Map_has_def Map_get_def)

lemma fetchPage_logged:
  "u \<notin> set (visitedUrls c) \<Longrightarrow>
   fetchPage pf why u c = (text_of (fetch pf (map request_url (requests c)) u), logged why u pf c)"
  by (simp add: fetchPage_fresh logged_def)

lemma sample_product_cases:
  obtains (same) "sample_product pf html (st, c) = (st, c)"
  | (fetched) pu where "pu \<notin> set (visitedUrls c)"
      "sample_product pf html (st, c) = (st, logged Sample pu pf c)"
  | (found) pu t where "pu \<notin> set (visitedUrls c)" "\<not> Map_has (templates st) PDP"
      "sample_product pf html (st, c)
         = (st\<lparr>templates := Map_set (templates st) PDP t\<rparr>, logged Sample pu pf c)"
proof (cases "extractProductLinks (cheerio_load pf html)")
  case Nil
  then have "sample_product pf html (st, c) = (st, c)"
    by (simp add: sample_product_def)
  then show ?thesis by (rule same)
next
  case (Cons first rest)
  let ?pu = "resolveUrl pf c (link_url first)"
  show ?thesis
  proof (cases "Map_has (templates st) PDP \<or> ?pu \<in> set (visitedUrls c)")
    case True
    then have "sample_product pf html (st, c) = (st, c)"
      using Cons by (auto simp: sample_product_def Let_def fetchPage_visited)
    then show ?thesis by (rule same)
  next
    case False
    then have fresh: "?pu \<notin> set (visitedUrls c)" and nohas: "\<not> Map_has (templates st) PDP"
      by simp_all
    let ?h = "text_of (fetch pf (map request_url (requests c)) ?pu)"
    let ?c' = "logged Sample ?pu pf c"
    show ?thesis
    proof (cases "truthy ?h \<and> type (analyzePageTemplate pf ?c' ?pu (the ?h)) = PDP")
      case True
      then obtain h where h: "?h = Some h" "h \<noteq> []"
        by (auto simp: truthy_def)
      with True have "sample_product pf html (st, c)
         = (st\<lparr>templates := Map_set (templates st) PDP (analyzePageTemplate pf ?c' ?pu h)\<rparr>, ?c')"
        using Cons nohas fresh by (simp add: sample_product_def Let_def fetchPage_logged)
      with fresh nohas show ?thesis by (rule found)
    next
      case False
      then have "sample_product pf html (st, c) = (st, ?c')"
        using Cons nohas fresh
        by (auto simp: sample_product_def Let_def fetchPage_logged truthy_def split: option.splits)
      with fresh show ?thesis by (rule fetched)
    qed
  qed
qed

lemma crawl_inv_logged:
  assumes "crawl_inv (st, c)" "u \<notin> set (visitedUrls c)" "why \<noteq> Robots"
    and "\<not> served (why, u, fetch pf (map request_url (requests c)) u)"
  shows "crawl_inv (st, logged why u pf c)"
  using assms by (auto simp: crawl_inv_def logged_def page_requests_def request_url_def)

lemma crawl_inv_served:
  assumes "crawl_inv (st, c)" "u \<notin> set (visitedUrls c)"
    and "served (Candidate, u, fetch pf (map request_url (requests c)) u)"
  shows "crawl_inv (st\<lparr>siteMap := siteMap st @ [u]\<rparr>, logged Candidate u pf c)"
  using assms by (auto simp: crawl_inv_def logged_def page_requests_def request_url_def)

lemma crawl_inv_entity:
  assumes "crawl_inv (st, c)" "entity_url e \<in> set (visitedUrls c)"
    and "entity_url e \<notin> set (map entity_url (entities st))"
  shows "crawl_inv (st\<lparr>entities := entities st @ [e]\<rparr>, c)"
  using assms by (auto simp: crawl_inv_def)

lemma crawl_inv_template:
  assumes "crawl_inv (st, c)"
  shows "crawl_inv (st\<lparr>templates := Map_set (templates st) k v\<rparr>, c)"
  using assms by (auto simp: crawl_inv_def Map_set_distinct)

lemma sample_product_inv:
  assumes "crawl_inv (st, c)"
  shows "crawl_inv (sample_product pf html (st, c))"
proof (cases rule: sample_product_cases [where pf = pf and html = html and st = st and c = c])
  case same
  with assms show ?thesis by simp
next
  case (fetched pu)
  have "crawl_inv (st, logged Sample pu pf c)"
    using assms fetched(1) by (rule crawl_inv_logged) (simp_all add: served_def)
  with fetched show ?thesis by simp
next
  case (found pu t)
  have "crawl_inv (st, logged Sample pu pf c)"
    using assms found(1) by (rule crawl_inv_logged) (simp_all add: served_def)
  then have "crawl_inv (st\<lparr>templates := Map_set (templates st) PDP t\<rparr>, logged Sample pu pf c)"
    by (rule crawl_inv_template)
  with found show ?thesis by simp
qed

lemma visit_link_cases:
  obtains (same) "u \<in> set (visitedUrls c)" "visit_link pf l u (st, c) = (st, c)"
  | (failed) "u \<notin> set (visitedUrls c)"
      "\<not> served (Candidate, u, fetch pf (map request_url (requests c)) u)"
      "visit_link pf l u (st, c) = (st, logged Candidate u pf c)"
  | (other) "u \<notin> set (visitedUrls c)"
      "served (Candidate, u, fetch pf (map request_url (requests c)) u)"
      "visit_link pf l u (st, c) = (st\<lparr>siteMap := siteMap st @ [u]\<rparr>, logged Candidate u pf c)"
  | (category) h where "u \<notin> set (visitedUrls c)"
      "served (Candidate, u, fetch pf (map request_url (requests c)) u)"
      "Map_has (templates st) (type (analyzePageTemplate pf (logged Candidate u pf c) u h))"
      "visit_link pf l u (st, c)
         = sample_product pf h
             (st\<lparr>siteMap := siteMap st @ [u],
                 entities := entities st @ [category_entity l u]\<rparr>,
              logged Candidate u pf c)"
  | (first) h where "u \<notin> set (visitedUrls c)"
      "served (Candidate, u, fetch pf (map request_url (requests c)) u)"
      "\<not> Map_has (templates st) (type (analyzePageTemplate pf (logged Candidate u pf c) u h))"
      "visit_link pf l u (st, c)
         = sample_product pf h
             (st\<lparr>siteMap := siteMap st @ [u],
                 entities := entities st @ [category_entity l u],
                 templates := Map_set (templates st)
                   (type (analyzePageTemplate pf (logged Candidate u pf c) u h))
                   (analyzePageTemplate pf (logged Candidate u pf c) u h)\<rparr>,
              logged Candidate u pf c)"
proof (cases "u \<in> set (visitedUrls c)")
  case True
  then have "visit_link pf l u (st, c) = (st, c)"
    by (simp add: visit_link_def fetchPage_visited)
  with True show ?thesis by (rule same)
next
  case fresh: False
  let ?r = "fetch pf (map request_url (requests c)) u"
  let ?c' = "logged Candidate u pf c"
  show ?thesis
  proof (cases "served (Candidate, u, ?r)")
    case False
    then have "visit_link pf l u (st, c) = (st, ?c')"
      using fresh
      by (auto simp: visit_link_def fetchPage_logged served_def truthy_def split: option.splits)
    with fresh False show ?thesis by (rule failed)
  next
    case True
    then obtain h where h: "text_of ?r = Some h" "h \<noteq> []"
      by (auto simp: served_def truthy_def)
    let ?t = "analyzePageTemplate pf ?c' u h"
    show ?thesis
    proof (cases "type ?t = CATEGORY \<or> type ?t = PLP")
      case False
      then have "visit_link pf l u (st, c) = (st\<lparr>siteMap := siteMap st @ [u]\<rparr>, ?c')"
        using fresh h by (simp add: visit_link_def fetchPage_logged Let_def)
      with fresh True show ?thesis by (rule other)
    next
      case cat: True
      show ?thesis
      proof (cases "Map_has (templates st) (type ?t)")
        case has: True
        with cat have "visit_link pf l u (st, c)
           = sample_product pf h
               (st\<lparr>siteMap := siteMap st @ [u],
                   entities := entities st @ [category_entity l u]\<rparr>, ?c')"
          using fresh h by (simp add: visit_link_def fetchPage_logged Let_def category_entity_def)
        with fresh True has show ?thesis by (rule category)
      next
        case nohas: False
        with cat have "visit_link pf l u (st, c)
           = sample_product pf h
               (st\<lparr>siteMap := siteMap st @ [u],
                   entities := entities st @ [category_entity l u],
                   templates := Map_set (templates st) (type ?t) ?t\<rparr>, ?c')"
          using fresh h by (simp add: visit_link_def fetchPage_logged Let_def category_entity_def)
        with fresh True nohas show ?thesis by (rule first)
      qed
    qed
  qed
qed

lemma logged_visited [simp]: "visitedUrls (logged why u pf c) = visitedUrls c @ [u]"
  by (simp add: logged_def)

lemma logged_baseUrl [simp]: "baseUrl (logged why u pf c) = baseUrl c"
  by (simp add: logged_def)

lemma logged_maxPages [simp]: "maxPages (logged why u pf c) = maxPages c"
  by (simp add: logged_def)

lemma visit_link_inv:
  assumes inv: "crawl_inv (st, c)"
  shows "crawl_inv (visit_link pf l u (st, c))"
proof (cases rule: visit_link_cases [where u = u and c = c and pf = pf and l = l and st = st])
  case same
  with inv show ?thesis by simp
next
  case failed
  have "crawl_inv (st, logged Candidate u pf c)"
    using inv failed(1) _ failed(2) by (rule crawl_inv_logged) simp
  with failed show ?thesis by simp
next
  case other
  have "crawl_inv (st\<lparr>siteMap := siteMap st @ [u]\<rparr>, logged Candidate u pf c)"
    using inv other(1,2) by (rule crawl_inv_served)
  with other show ?thesis by simp
next
  case (category h)
  have old: "u \<notin> set (map entity_url (entities st))"
    using inv category(1) by (auto simp: crawl_inv_def)
  have "crawl_inv (st\<lparr>siteMap := siteMap st @ [u]\<rparr>, logged Candidate u pf c)"
    using inv category(1,2) by (rule crawl_inv_served)
  then have "crawl_inv (st\<lparr>siteMap := siteMap st @ [u],
      entities := entities st @ [category_entity l u]\<rparr>, logged Candidate u pf c)"
    using old crawl_inv_entity [of "st\<lparr>siteMap := siteMap st @ [u]\<rparr>"
        "logged Candidate u pf c" "category_entity l u"]
    by (simp add: category_entity_def)
  then show ?thesis
    unfolding category(4) by (rule sample_product_inv)
next
  case (first h)
  have old: "u \<notin> set (map entity_url (entities st))"
    using inv first(1) by (auto simp: crawl_inv_def)
  have "crawl_inv (st\<lparr>siteMap := siteMap st @ [u]\<rparr>, logged Candidate u pf c)"
    using inv first(1,2) by (rule crawl_inv_served)
  then have "crawl_inv (st\<lparr>siteMap := siteMap st @ [u],
      entities := entities st @ [category_entity l u]\<rparr>, logged Candidate u pf c)"
    using old crawl_inv_entity [of "st\<lparr>siteMap := siteMap st @ [u]\<rparr>"
        "logged Candidate u pf c" "category_entity l u"]
    by (simp add: category_entity_def)
  then have "crawl_inv (st\<lparr>siteMap := siteMap st @ [u],
      entities := entities st @ [category_entity l u],
      templates := Map_set (templates st)
         (type (analyzePageTemplate pf (logged Candidate u pf c) u h))
         (analyzePageTemplate pf (logged Candidate u pf c) u h)\<rparr>, logged Candidate u pf c)"
    using crawl_inv_template [of "st\<lparr>siteMap := siteMap st @ [u],
      entities := entities st @ [category_entity l u]\<rparr>" "logged Candidate u pf c"]
    by simp
  then show ?thesis
    unfolding first(4) by (rule sample_product_inv)
qed

lemma crawl_links_inv:
  "crawl_inv s \<Longrightarrow> crawl_inv (crawl_links pf ls s)"
proof (induction ls arbitrary: s)
  case Nil
  then show ?case by simp
next
  case (Cons l ls)
  obtain st c where s: "s = (st, c)" by (cases s)
  have "crawl_inv (visit_link pf l (resolveUrl pf (snd s) (link_url l)) s)"
    using Cons.prems unfolding s by (rule visit_link_inv)
  then show ?case
    using Cons by (simp add: Let_def)
qed

lemma analyze_cases:
  obtains (no_home) "\<not> truthy (text_of (root_response pf u))"
      "analyze pf u n = (no_pages pf u, at_root pf u n)"
  | (home) h where "root_response pf u = Response True h" "h \<noteq> []"
      "analyze pf u n
         = crawl_links pf (extractCategoryLinks (cheerio_load pf h))
             ((no_pages pf u)\<lparr>templates :=
                 [(HOME, analyzePageTemplate pf (at_root pf u n) (strip_trailing_slash u) h)]\<rparr>,
              at_root pf u n)"
proof -
  let ?c = "SiteCrawler_new u n"
  let ?b = "strip_trailing_slash u"
  have robots: "fetchRobotsTxt pf ?c
      = (text_of (robots_response pf u),
         ?c\<lparr>requests := [(Robots, ?b @ ''/robots.txt'', robots_response pf u)]\<rparr>)"
    by (simp add: fetchRobotsTxt_eq SiteCrawler_new_def robots_response_def)
  have root: "fetchPage pf Root ?b
        (?c\<lparr>requests := [(Robots, ?b @ ''/robots.txt'', robots_response pf u)]\<rparr>)
      = (text_of (root_response pf u), at_root pf u n)"
    by (simp add: fetchPage_fresh SiteCrawler_new_def root_response_def at_root_def
        request_url_def)
  have b: "baseUrl ?c = ?b"
    by (simp add: SiteCrawler_new_def)
  show ?thesis
  proof (cases "truthy (text_of (root_response pf u))")
    case False
    then have "analyze pf u n = (no_pages pf u, at_root pf u n)"
      by (auto simp: analyze_def analyzeSite_def robots root b Let_def no_pages_def truthy_def
          split: option.splits)
    with False show ?thesis by (rule no_home)
  next
    case True
    then obtain h where h: "text_of (root_response pf u) = Some h" "h \<noteq> []"
      by (auto simp: truthy_def)
    then have r: "root_response pf u = Response True h"
      by (cases "root_response pf u" rule: text_of.cases) simp_all
    have "analyze pf u n
         = crawl_links pf (extractCategoryLinks (cheerio_load pf h))
             ((no_pages pf u)\<lparr>templates :=
                 [(HOME, analyzePageTemplate pf (at_root pf u n) (strip_trailing_slash u) h)]\<rparr>,
              at_root pf u n)"
      using h by (simp add: analyze_def analyzeSite_def robots root b Let_def no_pages_def
          at_root_def)
    with r h(2) show ?thesis by (rule home)
  qed
qed

lemma crawl_inv_at_root:
  "crawl_inv (st\<lparr>siteMap := [], entities := [], templates := [(k, v)]\<rparr>, at_root pf u n)"
  "crawl_inv (no_pages pf u, at_root pf u n)"
  by (simp_all add: crawl_inv_def at_root_def no_pages_def page_requests_def request_url_def
      served_def)

lemma analyze_inv: "crawl_inv (analyze pf u n)"
proof (cases rule: analyze_cases [where pf = pf and u = u and n = n])
  case no_home
  then show ?thesis by (simp add: crawl_inv_at_root)
next
  case (home h)
  have "(no_pages pf u)\<lparr>templates :=
          [(HOME, analyzePageTemplate pf (at_root pf u n) (strip_trailing_slash u) h)]\<rparr>
        = (no_pages pf u)\<lparr>siteMap := [], entities := [], templates :=
          [(HOME, analyzePageTemplate pf (at_root pf u n) (strip_trailing_slash u) h)]\<rparr>"
    by (simp add: no_pages_def)
  then have "crawl_inv ((no_pages pf u)\<lparr>templates :=
          [(HOME, analyzePageTemplate pf (at_root pf u n) (strip_trailing_slash u) h)]\<rparr>,
        at_root pf u n)"
    using crawl_inv_at_root(1) [where st = "no_pages pf u"] by simp
  then show ?thesis
    unfolding home(3) by (rule crawl_links_inv)
qed


section \<open>Properties of a run\<close>

lemma served_page: "served r \<Longrightarrow> fst r \<noteq> Robots"
  by (simp add: served_def)

lemma filter_served_pages: "filter served (requests c) = filter served (page_requests c)"
proof -
  have "filter served (requests c) = filter (\<lambda>r. fst r \<noteq> Robots \<and> served r) (requests c)"
    by (rule filter_cong) (auto dest: served_page)
  then show ?thesis by (simp add: page_requests_def conj_commute)
qed

lemma crawl_inv_siteMap_distinct:
  assumes "crawl_inv (st, c)"
  shows "distinct (siteMap st)"
proof -
  from assms have "distinct (map request_url (page_requests c))"
    and "siteMap st = map request_url (filter served (page_requests c))"
    by (simp_all add: crawl_inv_def filter_served_pages)
  then show ?thesis by (simp add: distinct_map_filter)
qed

lemma crawl_inv_unserved:
  assumes "crawl_inv (st, c)" "r \<in> set (page_requests c)" "\<not> served r"
  shows "request_url r \<notin> set (siteMap st)"
proof
  assume "request_url r \<in> set (siteMap st)"
  with assms(1) obtain r' where r': "r' \<in> set (page_requests c)" "served r'"
      "request_url r' = request_url r"
    by (auto simp: crawl_inv_def filter_served_pages)
  from assms(1) have "distinct (map request_url (page_requests c))"
    by (simp add: crawl_inv_def)
  then have "inj_on request_url (set (page_requests c))"
    by (simp add: distinct_map)
  with r' assms(2) have "r' = r" by (auto dest: inj_onD)
  with r'(2) assms(3) show False by simp
qed

text \<open>The run on the example site with a budget of 10 pages.\<close>

lemma shop_run:
  "analyze shop ''https://example.com'' 10 =
     (\<lparr>domain = ''https://example.com'', analyzedAt = ''2024-01-01T00:00:00.000Z'',
       templates =
         [(HOME,
           \<lparr>type = CATEGORY, urlPattern = ''/'', exampleUrls = [''https://example.com''],
            characteristics =
              [''Has product grid'', ''Has filters/facets'', ''Has multiple product links''],
            detectedElements = [''Navigation'']\<rparr>),
          (CATEGORY,
           \<lparr>type = CATEGORY, urlPattern = ''/shoes'',
            exampleUrls = [''https://example.com/shoes''],
            characteristics =
              [''Has product grid'', ''Has filters/facets'', ''Has multiple product links''],
            detectedElements = []\<rparr>),
          (PDP,
           \<lparr>type = PDP, urlPattern = ''/product/:id'',
            exampleUrls = [''https://example.com/product/1234''],
            characteristics =
              [''Has product title'', ''Has add to cart button'', ''Has product images''],
            detectedElements = []\<rparr>)],
       entities =
         [\<lparr>entity_type = Entity_CATEGORY, entity_name = ''Shoes'',
           entity_url = ''https://example.com/shoes'', parentCategory = None\<rparr>],
       siteMap = [''https://example.com/robots.txt'', ''https://example.com/shoes''],
       robotsTxt = Some ''User-agent: *''\<rparr>,
      \<lparr>baseUrl = ''https://example.com'',
       visitedUrls =
         [''https://example.com'', ''https://example.com/robots.txt'',
          ''https://example.com/shoes'', ''https://example.com/product/1234'',
          ''https://example.com/sale''],
       maxPages = 10,
       requests =
         [(Robots, ''https://example.com/robots.txt'', Response True ''User-agent: *''),
          (Root, ''https://example.com'', Response True ''<home>''),
          (Candidate, ''https://example.com/robots.txt'', Response True ''User-agent: *''),
          (Candidate, ''https://example.com/shoes'', Response True ''<shoes>''),
          (Sample, ''https://example.com/product/1234'', Response True ''<product>''),
          (Candidate, ''https://example.com/sale'', Response True [])]\<rparr>)"
  by code_simp

text \<open>The run on the second site, started from the root URL with its trailing slash.\<close>

lemma outlet_run:
  "analyze outlet ''https://example.com/'' 10 =
     (\<lparr>domain = ''https://example.com'', analyzedAt = ''2024-01-01T00:00:00.000Z'',
       templates =
         [(HOME,
           \<lparr>type = HOME, urlPattern = ''/'', exampleUrls = [''https://example.com''],
            characteristics = [''Root URL'', ''Has hero banner'', ''Has navigation menu''],
            detectedElements = [''Navigation'']\<rparr>),
          (CATEGORY,
           \<lparr>type = CATEGORY, urlPattern = ''/shoes'',
            exampleUrls = [''https://example.com/shoes''],
            characteristics =
              [''Has product grid'', ''Has filters/facets'', ''Has multiple product links''],
            detectedElements = []\<rparr>),
          (PDP,
           \<lparr>type = PDP, urlPattern = ''/product/:id'',
            exampleUrls = [''https://example.com/product/1234''],
            characteristics =
              [''Has product title'', ''Has add to cart button'', ''Has product images''],
            detectedElements = []\<rparr>)],
       entities =
         [\<lparr>entity_type = Entity_CATEGORY, entity_name = ''Shoes'',
           entity_url = ''https://example.com/shoes'', parentCategory = None\<rparr>],
       siteMap =
         [''https://example.com/'', ''https://example.com/deal'', ''https://example.com/shoes''],
       robotsTxt = None\<rparr>,
      \<lparr>baseUrl = ''https://example.com'',
       visitedUrls =
         [''https://example.com'', ''https://example.com/'', ''https://example.com/deal'',
          ''https://example.com/shoes'', ''https://example.com/product/1234''],
       maxPages = 10,
       requests =
         [(Robots, ''https://example.com/robots.txt'', Response False ''Not Found''),
          (Root, ''https://example.com'', Response True ''<outlet>''),
          (Candidate, ''https://example.com/'', Response True ''<outlet>''),
          (Candidate, ''https://example.com/deal'', Response True ''<product>''),
          (Candidate, ''https://example.com/shoes'', Response True ''<shoes>''),
          (Sample, ''https://example.com/product/1234'', Response True ''<product>'')]\<rparr>)"
  by code_simp

text \<open>
  C2, as stated: no URL is requested twice in a run. The request for \<open>robots.txt\<close> is sent
  without a look at the visited set and without an entry in it: on the example site,
  whose navigation links to \<open>/robots.txt\<close>, that URL is requested a second time as a
  candidate page.
\<close>

theorem robots_fetched_twice:
  "\<not> distinct (map request_url (requests (snd (analyze shop ''https://example.com'' 10))))"
  unfolding shop_run by (simp add: request_url_def)

text \<open>
  C2, amended: the requests that \<open>fetchPage\<close> makes (for the root page, the candidate
  pages and the product samples) are exactly the entries of the visited set, in order,
  so no URL is requested twice by \<open>fetchPage\<close>; and no URL occurs twice in \<open>siteMap\<close>.
\<close>

theorem no_page_fetched_twice:
  "map request_url (page_requests (snd (analyze pf u n))) = visitedUrls (snd (analyze pf u n))
   \<and> distinct (map request_url (page_requests (snd (analyze pf u n))))
   \<and> distinct (siteMap (fst (analyze pf u n)))"
proof -
  obtain st c where a: "analyze pf u n = (st, c)" by (cases "analyze pf u n")
  have inv: "crawl_inv (st, c)" using analyze_inv [of pf u n] by (simp add: a)
  then have "distinct (siteMap st)" by (rule crawl_inv_siteMap_distinct)
  with inv show ?thesis by (simp add: a crawl_inv_def)
qed

text \<open>
  C8: no two entities of the returned list have the same URL.
\<close>

theorem entities_distinct_urls:
  "distinct (map entity_url (entities (fst (analyze pf u n))))"
  using analyze_inv [of pf u n] by (simp add: crawl_inv_def)

lemma logged_requests_prefix: "prefix (requests c) (requests (logged why v pf c))"
  by (simp add: logged_def)

lemma sample_product_requests:
  "prefix (requests c) (requests (snd (sample_product pf html (st, c))))"
  by (cases rule: sample_product_cases [where pf = pf and html = html and st = st and c = c])
    (simp_all add: logged_requests_prefix)

lemma visit_link_requests:
  "prefix (requests c) (requests (snd (visit_link pf l v (st, c))))"
proof (cases rule: visit_link_cases [where u = v and c = c and pf = pf and l = l and st = st])
  case same
  then show ?thesis by simp
next
  case failed
  then show ?thesis by (simp add: logged_requests_prefix)
next
  case other
  then show ?thesis by (simp add: logged_requests_prefix)
next
  case (category h)
  show ?thesis
    unfolding category(4)
    by (rule prefix_order.trans [OF logged_requests_prefix sample_product_requests])
next
  case (first h)
  show ?thesis
    unfolding first(4)
    by (rule prefix_order.trans [OF logged_requests_prefix sample_product_requests])
qed

lemma crawl_links_requests:
  "prefix (requests (snd s)) (requests (snd (crawl_links pf ls s)))"
proof (induction ls arbitrary: s)
  case Nil
  show ?case by simp
next
  case (Cons l ls)
  obtain st c where s: "s = (st, c)" by (cases s)
  let ?s' = "visit_link pf l (resolveUrl pf c (link_url l)) (st, c)"
  have "prefix (requests c) (requests (snd (crawl_links pf ls ?s')))"
    using visit_link_requests Cons.IH [of ?s'] by (rule prefix_order.trans)
  then show ?case
    using Cons.IH [of s] by (simp add: s Let_def)
qed

lemma analyze_root_request:
  "(Root, strip_trailing_slash u, root_response pf u) \<in> set (page_requests (snd (analyze pf u n)))"
proof -
  have "prefix (requests (at_root pf u n)) (requests (snd (analyze pf u n)))"
  proof (cases rule: analyze_cases [where pf = pf and u = u and n = n])
    case no_home
    then show ?thesis by simp
  next
    case (home h)
    show ?thesis
      unfolding home(3) using crawl_links_requests [of "(_, at_root pf u n)"] by simp
  qed
  then have "set (requests (at_root pf u n)) \<subseteq> set (requests (snd (analyze pf u n)))"
    by (rule set_mono_prefix)
  then have "(Root, strip_trailing_slash u, root_response pf u)
      \<in> set (requests (snd (analyze pf u n)))"
    by (auto simp: at_root_def)
  then show ?thesis by (simp add: page_requests_def)
qed

text \<open>
  C10, as stated: \<open>siteMap\<close> holds every candidate URL whose fetch succeeded, and never the
  root URL. On the example site the request for \<open>/sale\<close> is answered with status 200 and
  an empty body; the empty text is falsy, and the URL is not in \<open>siteMap\<close>. On the second
  site the navigation links to \<open>/\<close>, which resolves to the root URL followed by a slash: a
  string that is not in the visited set, so the root page is fetched again as a candidate
  and listed.
\<close>

theorem siteMap_not_as_stated:
  "(Candidate, ''https://example.com/sale'', Response True [])
     \<in> set (requests (snd (analyze shop ''https://example.com'' 10)))
   \<and> ''https://example.com/sale'' \<notin> set (siteMap (fst (analyze shop ''https://example.com'' 10)))
   \<and> ''https://example.com/'' \<in> set (siteMap (fst (analyze outlet ''https://example.com/'' 10)))"
  unfolding shop_run outlet_run by simp

text \<open>
  C10, amended: \<open>siteMap\<close> is the list of the URLs of the requests for candidate links
  that were answered with status 2xx and a text that is not empty, in the order of the
  requests; the URL string of any other request of \<open>fetchPage\<close> (for the root page, for a
  product sample, or for a candidate that failed or came back empty) is not in \<open>siteMap\<close>,
  in particular not the string that was requested as the root: the root URL without one
  trailing slash. Another string for the same page can be requested as a candidate and
  listed.
\<close>

theorem siteMap_served_candidates:
  "siteMap (fst (analyze pf u n))
     = map request_url (filter served (requests (snd (analyze pf u n))))
   \<and> (\<forall>r \<in> set (page_requests (snd (analyze pf u n))).
        \<not> served r \<longrightarrow> request_url r \<notin> set (siteMap (fst (analyze pf u n))))
   \<and> strip_trailing_slash u \<notin> set (siteMap (fst (analyze pf u n)))"
proof -
  obtain st c where a: "analyze pf u n = (st, c)" by (cases "analyze pf u n")
  have inv: "crawl_inv (st, c)" using analyze_inv [of pf u n] by (simp add: a)
  then have "siteMap st = map request_url (filter served (requests c))"
    by (simp add: crawl_inv_def)
  moreover have all: "\<forall>r \<in> set (page_requests c). \<not> served r \<longrightarrow> request_url r \<notin> set (siteMap st)"
    using crawl_inv_unserved [OF inv] by blast
  moreover have "strip_trailing_slash u \<notin> set (siteMap st)"
  proof -
    have "(Root, strip_trailing_slash u, root_response pf u) \<in> set (page_requests c)"
      using analyze_root_request [of u pf n] by (simp add: a)
    moreover have "\<not> served (Root, strip_trailing_slash u, root_response pf u)"
      by (simp add: served_def)
    ultimately have "request_url (Root, strip_trailing_slash u, root_response pf u)
        \<notin> set (siteMap st)"
      using all by blast
    then show ?thesis by (simp add: request_url_def)
  qed
  ultimately show ?thesis by (simp add: a)
qed

theorem siteMap_served_candidates_witness:
  "(Sample, ''https://example.com/product/1234'', Response True ''<product>'')
     \<in> set (page_requests (snd (analyze shop ''https://example.com'' 10)))
   \<and> \<not> served (Sample, ''https://example.com/product/1234'', Response True ''<product>'')
   \<and> ''https://example.com/product/1234''
       \<notin> set (siteMap (fst (analyze shop ''https://example.com'' 10)))"
proof -
  let ?r = "(Sample, ''https://example.com/product/1234'', Response True ''<product>'')"
  have m: "?r \<in> set (page_requests (snd (analyze shop ''https://example.com'' 10)))"
    unfolding shop_run by (simp add: page_requests_def)
  have n: "\<not> served ?r" by (simp add: served_def)
  have "request_url ?r \<notin> set (siteMap (fst (analyze shop ''https://example.com'' 10)))"
    using siteMap_served_candidates [of shop "''https://example.com''" 10, THEN conjunct2,
        THEN conjunct1, rule_format, OF m n] .
  then have "''https://example.com/product/1234''
       \<notin> set (siteMap (fst (analyze shop ''https://example.com'' 10)))"
    by (simp add: request_url_def)
  with m n show ?thesis by (intro conjI)
qed

section \<open>Budget and templates\<close>

lemma sample_product_delta:
  "maxPages (snd (sample_product pf html (st, c))) = maxPages c
   \<and> length (visitedUrls (snd (sample_product pf html (st, c)))) \<le> length (visitedUrls c) + 1
   \<and> siteMap (fst (sample_product pf html (st, c))) = siteMap st"
  by (cases rule: sample_product_cases [where pf = pf and html = html and st = st and c = c])
    simp_all

lemma sample_product_templates:
  assumes "Map_get (templates st) k = Some t"
  shows "Map_get (templates (fst (sample_product pf html (st, c)))) k = Some t"
proof (cases rule: sample_product_cases [where pf = pf and html = html and st = st and c = c])
  case same
  with assms show ?thesis by simp
next
  case (fetched pu)
  with assms show ?thesis by simp
next
  case (found pu t')
  from found(2) assms have "k \<noteq> PDP" by (auto simp: Map_has_get)
  with assms found(3) show ?thesis by (simp add: Map_get_set_other)
qed

lemma visit_link_delta:
  "maxPages (snd (visit_link pf l u (st, c))) = maxPages c
   \<and> length (visitedUrls (snd (visit_link pf l u (st, c)))) \<le> length (visitedUrls c) + 2
   \<and> length (siteMap (fst (visit_link pf l u (st, c)))) \<le> length (siteMap st) + 1"
proof (cases rule: visit_link_cases [where u = u and c = c and pf = pf and l = l and st = st])
  case same
  then show ?thesis by simp
next
  case failed
  then show ?thesis by simp
next
  case other
  then show ?thesis by simp
next
  case (category h)
  show ?thesis
    unfolding category(4)
    using sample_product_delta [of pf h
        "st\<lparr>siteMap := siteMap st @ [u], entities := entities st @ [category_entity l u]\<rparr>"
        "logged Candidate u pf c"]
    by simp
next
  case (first h)
  show ?thesis
    unfolding first(4)
    using sample_product_delta [of pf h
        "st\<lparr>siteMap := siteMap st @ [u], entities := entities st @ [category_entity l u],
           templates := Map_set (templates st)
             (type (analyzePageTemplate pf (logged Candidate u pf c) u h))
             (analyzePageTemplate pf (logged Candidate u pf c) u h)\<rparr>"
        "logged Candidate u pf c"]
    by simp
qed

lemma visit_link_templates:
  assumes "Map_get (templates st) k = Some t"
  shows "Map_get (templates (fst (visit_link pf l u (st, c)))) k = Some t"
proof (cases rule: visit_link_cases [where u = u and c = c and pf = pf and l = l and st = st])
  case same
  with assms show ?thesis by simp
next
  case failed
  with assms show ?thesis by simp
next
  case other
  with assms show ?thesis by simp
next
  case (category h)
  show ?thesis
    unfolding category(4) using assms by (intro sample_product_templates) simp
next
  case (first h)
  from first(3) assms
  have "k \<noteq> type (analyzePageTemplate pf (logged Candidate u pf c) u h)"
    by (auto simp: Map_has_get)
  then show ?thesis
    unfolding first(4) using assms
    by (intro sample_product_templates) (simp add: Map_get_set_other)
qed

lemma crawl_links_templates:
  "Map_get (templates (fst s)) k = Some t \<Longrightarrow>
   Map_get (templates (fst (crawl_links pf ls s))) k = Some t"
proof (induction ls arbitrary: s)
  case Nil
  then show ?case by simp
next
  case (Cons l ls)
  obtain st c where s: "s = (st, c)" by (cases s)
  have "Map_get (templates (fst (visit_link pf l (resolveUrl pf (snd s) (link_url l)) s))) k
        = Some t"
    using Cons.prems unfolding s by (simp add: visit_link_templates)
  then show ?case
    using Cons by (simp add: Let_def)
qed

lemma crawl_links_budget:
  "crawl_inv s \<Longrightarrow>
   int (length (visitedUrls (snd (crawl_links pf ls s))))
     \<le> max (int (length (visitedUrls (snd s)))) (maxPages (snd s) + 1)
   \<and> int (length (siteMap (fst (crawl_links pf ls s))))
     \<le> max (int (length (siteMap (fst s)))) (maxPages (snd s) - 1)"
proof (induction ls arbitrary: s)
  case Nil
  then show ?case by simp
next
  case (Cons l ls)
  obtain st c where s: "s = (st, c)" by (cases s)
  show ?case
  proof (cases "int (length (visitedUrls c)) \<ge> maxPages c")
    case True
    then show ?thesis by (simp add: s)
  next
    case room: False
    let ?u = "resolveUrl pf c (link_url l)"
    show ?thesis
    proof (cases "shouldVisit pf c ?u")
      case False
      then show ?thesis
        using room Cons.IH [OF Cons.prems] by (simp add: s)
    next
      case True
      let ?s' = "visit_link pf l ?u (st, c)"
      have inv': "crawl_inv ?s'"
        using Cons.prems unfolding s by (rule visit_link_inv)
      have d: "maxPages (snd ?s') = maxPages c"
        "length (visitedUrls (snd ?s')) \<le> length (visitedUrls c) + 2"
        "length (siteMap (fst ?s')) \<le> length (siteMap st) + 1"
        using visit_link_delta [of pf l ?u st c] by simp_all
      have lt: "length (siteMap st) < length (visitedUrls c)"
        using Cons.prems by (auto simp: s crawl_inv_def)
      have eq: "crawl_links pf (l # ls) s = crawl_links pf ls ?s'"
        using room True by (simp add: s)
      from Cons.IH [OF inv'] d lt room show ?thesis
        unfolding eq by (simp add: s)
    qed
  qed
qed

lemma at_root_fields:
  "visitedUrls (at_root pf u n) = [strip_trailing_slash u]"
  "maxPages (at_root pf u n) = n"
  "baseUrl (at_root pf u n) = strip_trailing_slash u"
  "page_requests (at_root pf u n) = [(Root, strip_trailing_slash u, root_response pf u)]"
  by (simp_all add: at_root_def page_requests_def)

lemma crawl_inv_pages:
  "crawl_inv (st, c) \<Longrightarrow> length (page_requests c) = length (visitedUrls c)"
proof -
  assume "crawl_inv (st, c)"
  then have "map request_url (page_requests c) = visitedUrls c"
    by (simp add: crawl_inv_def)
  then show ?thesis by (metis length_map)
qed

text \<open>
  C1, as stated: for every \<open>maxPages\<close>, \<open>siteMap\<close> has at most \<open>maxPages\<close> entries and
  \<open>fetchPage\<close> makes at most \<open>maxPages + 1\<close> requests. The root page is requested whatever
  the budget is: with \<open>maxPages = -1\<close> there is one request, more than \<open>maxPages + 1 = 0\<close>,
  and the empty \<open>siteMap\<close> has more than \<open>-1\<close> entries.
\<close>

theorem negative_budget:
  "\<not> int (length (siteMap (fst (analyze shop ''https://example.com'' (- 1))))) \<le> - 1
   \<and> \<not> int (length (page_requests (snd (analyze shop ''https://example.com'' (- 1))))) \<le> - 1 + 1"
  by code_simp

text \<open>
  C1, amended: for every run with \<open>maxPages \<ge> 0\<close>, \<open>siteMap\<close> has at most \<open>maxPages\<close>
  entries, and \<open>fetchPage\<close> makes at most \<open>maxPages + 1\<close> requests (for the root page, the
  candidate pages and the product samples; the request for \<open>robots.txt\<close> is not
  counted).
\<close>

theorem analyze_budget:
  assumes "0 \<le> n"
  shows "int (length (siteMap (fst (analyze pf u n)))) \<le> n
    \<and> int (length (page_requests (snd (analyze pf u n)))) \<le> n + 1"
proof (cases rule: analyze_cases [where pf = pf and u = u and n = n])
  case no_home
  with assms show ?thesis by (simp add: at_root_fields no_pages_def)
next
  case (home h)
  let ?s = "((no_pages pf u)\<lparr>templates :=
               [(HOME, analyzePageTemplate pf (at_root pf u n) (strip_trailing_slash u) h)]\<rparr>,
             at_root pf u n)"
  let ?r = "crawl_links pf (extractCategoryLinks (cheerio_load pf h)) ?s"
  have "(no_pages pf u)\<lparr>templates :=
          [(HOME, analyzePageTemplate pf (at_root pf u n) (strip_trailing_slash u) h)]\<rparr>
        = (no_pages pf u)\<lparr>siteMap := [], entities := [], templates :=
          [(HOME, analyzePageTemplate pf (at_root pf u n) (strip_trailing_slash u) h)]\<rparr>"
    by (simp add: no_pages_def)
  then have inv: "crawl_inv ?s"
    using crawl_inv_at_root(1) [where st = "no_pages pf u"] by simp
  have b: "int (length (visitedUrls (snd ?r))) \<le> max 1 (n + 1)"
      "int (length (siteMap (fst ?r))) \<le> max 0 (n - 1)"
    using crawl_links_budget [OF inv, of pf "extractCategoryLinks (cheerio_load pf h)"]
    by (simp_all add: at_root_fields no_pages_def)
  have "crawl_inv (fst ?r, snd ?r)"
    using crawl_links_inv [OF inv] by simp
  then have e: "length (page_requests (snd ?r)) = length (visitedUrls (snd ?r))"
    by (rule crawl_inv_pages)
  from b(2) assms have "int (length (siteMap (fst ?r))) \<le> n" by linarith
  moreover from b(1) assms e have "int (length (page_requests (snd ?r))) \<le> n + 1"
    by linarith
  ultimately show ?thesis
    unfolding home(3) by (intro conjI)
qed

theorem analyze_budget_witness:
  "(0::int) \<le> 2
   \<and> int (length (siteMap (fst (analyze shop ''https://example.com'' 2)))) \<le> 2
   \<and> int (length (page_requests (snd (analyze shop ''https://example.com'' 2)))) \<le> 2 + 1"
  using analyze_budget [of 2 shop "''https://example.com''"] by simp

text \<open>
  C9: when the request for the root page fails (a network error, or a status that is not
  2xx), \<open>analyzeSite\<close> returns a structure with no templates, no entities and an empty
  \<open>siteMap\<close>, which carries the text of \<open>robots.txt\<close> if that was fetched. Every \<open>throw\<close>
  on the way is caught inside \<open>fetchRobotsTxt\<close> and \<open>fetchPage\<close>, so the run returns:
  \<^const>\<open>analyze\<close> has no error value.
\<close>

theorem root_failure_empty_model:
  assumes "root_response pf u = NetworkError \<or> root_response pf u = Response False body"
  shows "templates (fst (analyze pf u n)) = []
    \<and> entities (fst (analyze pf u n)) = []
    \<and> siteMap (fst (analyze pf u n)) = []
    \<and> robotsTxt (fst (analyze pf u n)) = text_of (robots_response pf u)"
proof (cases rule: analyze_cases [where pf = pf and u = u and n = n])
  case no_home
  then show ?thesis by (simp add: no_pages_def)
next
  case (home h)
  with assms show ?thesis by auto
qed

lemma shop_missing_root:
  "root_response shop ''https://example.com/missing'' = Response False ''Not Found''"
  by code_simp

lemma shop_robots_of_missing:
  "text_of (robots_response shop ''https://example.com/missing'') = None"
  by code_simp

theorem root_failure_empty_model_witness:
  "root_response shop ''https://example.com/missing'' = Response False ''Not Found''
   \<and> templates (fst (analyze shop ''https://example.com/missing'' 10)) = []
   \<and> entities (fst (analyze shop ''https://example.com/missing'' 10)) = []
   \<and> siteMap (fst (analyze shop ''https://example.com/missing'' 10)) = []
   \<and> robotsTxt (fst (analyze shop ''https://example.com/missing'' 10)) = None"
  using root_failure_empty_model [of shop "''https://example.com/missing''" "''Not Found''" 10]
    shop_missing_root shop_robots_of_missing
  by simp

section \<open>The templates of a run\<close>

lemma analyzePageTemplate_baseUrl:
  assumes "baseUrl c = baseUrl c'"
  shows "analyzePageTemplate pf c v h = analyzePageTemplate pf c' v h"
  unfolding analyzePageTemplate_def classify_def assms by (rule refl)

lemma type_HOME:
  "(type (analyzePageTemplate pf c v html) = HOME)
     = (\<not> isProductDetailPage (cheerio_load pf html) \<and> \<not> isCategoryPage (cheerio_load pf html)
        \<and> (v = baseUrl c \<or> v = baseUrl c @ ''/''))"
  by (simp add: type_analyzePageTemplate classify_def)

lemma analyze_HOME:
  assumes "root_response pf u = Response True h" "h \<noteq> []"
  shows "Map_get (templates (fst (analyze pf u n))) HOME
         = Some (analyzePageTemplate pf (SiteCrawler_new u n) (strip_trailing_slash u) h)"
proof (cases rule: analyze_cases [where pf = pf and u = u and n = n])
  case no_home
  with assms show ?thesis by (simp add: truthy_def)
next
  case (home h')
  with assms have hh: "h' = h" by simp
  have t: "analyzePageTemplate pf (at_root pf u n) (strip_trailing_slash u) h
           = analyzePageTemplate pf (SiteCrawler_new u n) (strip_trailing_slash u) h"
    by (rule analyzePageTemplate_baseUrl) (simp add: at_root_def SiteCrawler_new_def)
  show ?thesis
    unfolding home(3) hh t
    by (rule crawl_links_templates) (simp add: Map_get_def)
qed

text \<open>
  C6, as stated: whenever the root page is fetched, it is classified as \<open>HOME\<close>. On the
  example site the home page shows six product links: the rule for category pages comes
  before the rule for the root URL, and the template stored under the key \<open>HOME\<close> has the
  type \<open>CATEGORY\<close>.
\<close>

theorem home_page_classified_category:
  "root_response shop ''https://example.com'' = Response True ''<home>''
   \<and> map_option type (Map_get (templates (fst (analyze shop ''https://example.com'' 10))) HOME)
       = Some CATEGORY"
proof
  show "root_response shop ''https://example.com'' = Response True ''<home>''"
    by code_simp
  show "map_option type (Map_get (templates (fst (analyze shop ''https://example.com'' 10))) HOME)
       = Some CATEGORY"
    unfolding shop_run by (simp add: Map_get_def)
qed

text \<open>
  C6, amended: whenever the root page is fetched with a text that is not empty, its
  template is stored under the key \<open>HOME\<close> and stays there; a page is classified as
  \<open>HOME\<close> exactly when neither the product-detail rule nor the category rule fires and
  its URL is the root URL or the root URL followed by one slash.
\<close>

theorem home_template_recorded:
  "(root_response pf u = Response True h \<and> h \<noteq> []
      \<longrightarrow> Map_get (templates (fst (analyze pf u n))) HOME
          = Some (analyzePageTemplate pf (SiteCrawler_new u n) (strip_trailing_slash u) h))
   \<and> (type (analyzePageTemplate pf c v html) = HOME)
       = (\<not> isProductDetailPage (cheerio_load pf html) \<and> \<not> isCategoryPage (cheerio_load pf html)
          \<and> (v = baseUrl c \<or> v = baseUrl c @ ''/''))"
  using analyze_HOME [of pf u h n] type_HOME [of pf c v html] by blast

lemma shop_root:
  "root_response shop ''https://example.com'' = Response True ''<home>''"
  by code_simp

lemma shop_teaser_home:
  "\<not> isProductDetailPage (cheerio_load shop ''<teaser>'')
   \<and> \<not> isCategoryPage (cheerio_load shop ''<teaser>'')
   \<and> ''https://example.com/'' = baseUrl (SiteCrawler_new ''https://example.com'' 10) @ ''/''"
  by code_simp

theorem home_template_recorded_witness:
  "root_response shop ''https://example.com'' = Response True ''<home>''
   \<and> Map_get (templates (fst (analyze shop ''https://example.com'' 10))) HOME
       = Some (analyzePageTemplate shop (SiteCrawler_new ''https://example.com'' 10)
                 (strip_trailing_slash ''https://example.com'') ''<home>'')
   \<and> type (analyzePageTemplate shop (SiteCrawler_new ''https://example.com'' 10)
              ''https://example.com/'' ''<teaser>'') = HOME"
proof -
  note t = home_template_recorded [of shop "''https://example.com''" "''<home>''" 10
      "SiteCrawler_new ''https://example.com'' 10" "''https://example.com/''" "''<teaser>''"]
  have "Map_get (templates (fst (analyze shop ''https://example.com'' 10))) HOME
       = Some (analyzePageTemplate shop (SiteCrawler_new ''https://example.com'' 10)
                 (strip_trailing_slash ''https://example.com'') ''<home>'')"
    by (rule t [THEN conjunct1, rule_format]) (simp add: shop_root)
  moreover
  have "type (analyzePageTemplate shop (SiteCrawler_new ''https://example.com'' 10)
              ''https://example.com/'' ''<teaser>'') = HOME"
    unfolding t [THEN conjunct2] using shop_teaser_home by blast
  ultimately show ?thesis using shop_root by (intro conjI)
qed

lemma visit_link_first:
  assumes fresh: "v \<notin> set (visitedUrls c)"
    and page: "fetch pf (map request_url (requests c)) v = Response True h" "h \<noteq> []"
    and cat: "type (analyzePageTemplate pf c v h) = CATEGORY
              \<or> type (analyzePageTemplate pf c v h) = PLP"
    and absent: "\<not> Map_has (templates st) (type (analyzePageTemplate pf c v h))"
  shows "Map_get (templates (fst (visit_link pf l v (st, c)))) (type (analyzePageTemplate pf c v h))
         = Some (analyzePageTemplate pf c v h)"
proof -
  let ?c' = "logged Candidate v pf c"
  let ?t = "analyzePageTemplate pf c v h"
  have t: "analyzePageTemplate pf ?c' v h = ?t"
    by (rule analyzePageTemplate_baseUrl) simp
  have "visit_link pf l v (st, c)
      = sample_product pf h
          (st\<lparr>siteMap := siteMap st @ [v], entities := entities st @ [category_entity l v],
              templates := Map_set (templates st) (type ?t) ?t\<rparr>, ?c')"
    using fresh page cat absent
    by (simp add: visit_link_def fetchPage_logged Let_def t category_entity_def)
  then show ?thesis
    by (simp add: sample_product_templates Map_get_set_same)
qed

lemma find_snoc:
  "List.find P (xs @ [x])
   = (case List.find P xs of Some y \<Rightarrow> Some y | None \<Rightarrow> if P x then Some x else None)"
  by (induction xs) simp_all

lemma page_of_logged: "page_of pf (logged why v pf c) r = page_of pf c r"
  unfolding page_of_def by (rule analyzePageTemplate_baseUrl) simp

lemma writes_logged: "writes pf (logged why v pf c) k r = writes pf c k r"
  by (simp add: writes_def page_of_logged)

lemma recorded_logged:
  "recorded pf (logged why v pf c) k
   = (case recorded pf c k of
        Some t \<Rightarrow> Some t
      | None \<Rightarrow>
          if writes pf c k (why, v, fetch pf (map request_url (requests c)) v)
          then Some (page_of pf c (why, v, fetch pf (map request_url (requests c)) v))
          else None)"
proof -
  have w: "writes pf (logged why v pf c) k = writes pf c k"
    by (rule ext) (rule writes_logged)
  have p: "page_of pf (logged why v pf c) = page_of pf c"
    by (rule ext) (rule page_of_logged)
  have r: "requests (logged why v pf c)
      = requests c @ [(why, v, fetch pf (map request_url (requests c)) v)]"
    by (simp add: logged_def)
  show ?thesis
    unfolding recorded_def w p r find_snoc by (simp split: option.splits)
qed

lemma templates_inv_silent:
  assumes "templates_inv pf (st, c)"
    and "\<And>k. \<not> writes pf c k (why, v, fetch pf (map request_url (requests c)) v)"
    and "templates st' = templates st"
  shows "templates_inv pf (st', logged why v pf c)"
  using assms by (simp add: templates_inv_def recorded_logged split: option.splits)

lemma templates_inv_kept:
  assumes "templates_inv pf (st, c)" "Map_has (templates st) k0"
    and "\<And>k. writes pf c k (why, v, fetch pf (map request_url (requests c)) v) \<Longrightarrow> k = k0"
    and "templates st' = templates st"
  shows "templates_inv pf (st', logged why v pf c)"
  unfolding templates_inv_def
proof
  fix k
  from assms(1) have e: "Map_get (templates st) k = recorded pf c k"
    by (simp add: templates_inv_def)
  show "Map_get (templates (fst (st', logged why v pf c))) k
        = recorded pf (snd (st', logged why v pf c)) k"
  proof (cases "k = k0")
    case True
    with assms(2) e obtain t where "recorded pf c k = Some t"
      by (auto simp: Map_has_get)
    with e assms(4) show ?thesis by (simp add: recorded_logged)
  next
    case False
    with assms(3) have "\<not> writes pf c k (why, v, fetch pf (map request_url (requests c)) v)"
      by blast
    with e assms(4) show ?thesis by (simp add: recorded_logged split: option.splits)
  qed
qed

lemma templates_inv_written:
  assumes "templates_inv pf (st, c)" "\<not> Map_has (templates st) k0"
    and "writes pf c k0 (why, v, fetch pf (map request_url (requests c)) v)"
    and "\<And>k. writes pf c k (why, v, fetch pf (map request_url (requests c)) v) \<Longrightarrow> k = k0"
    and "templates st'
         = Map_set (templates st) k0
             (page_of pf c (why, v, fetch pf (map request_url (requests c)) v))"
  shows "templates_inv pf (st', logged why v pf c)"
  unfolding templates_inv_def
proof
  fix k
  from assms(1) have e: "Map_get (templates st) k = recorded pf c k"
    by (simp add: templates_inv_def)
  show "Map_get (templates (fst (st', logged why v pf c))) k
        = recorded pf (snd (st', logged why v pf c)) k"
  proof (cases "k = k0")
    case True
    with assms(2) e have "recorded pf c k = None"
      by (simp add: Map_has_get)
    with True assms(3,5) show ?thesis
      by (simp add: recorded_logged Map_get_set_same)
  next
    case False
    with assms(4) have "\<not> writes pf c k (why, v, fetch pf (map request_url (requests c)) v)"
      by blast
    with False e assms(5) show ?thesis
      by (simp add: recorded_logged Map_get_set_other split: option.splits)
  qed
qed
lemma writes_Sample: "writes pf c k (Sample, v, resp) \<Longrightarrow> k = PDP"
  by (auto simp: writes_def)

lemma writes_Candidate:
  "writes pf c k (Candidate, v, resp) \<Longrightarrow> k = type (page_of pf c (Candidate, v, resp))"
  by (auto simp: writes_def)

lemma page_of_text:
  "text_of resp = Some h \<Longrightarrow> page_of pf c (why, v, resp) = analyzePageTemplate pf c v h"
  by (simp add: page_of_def request_url_def)

lemma sample_product_written:
  obtains (same) "sample_product pf html (st, c) = (st, c)"
  | (fetched) pu where "pu \<notin> set (visitedUrls c)"
      "\<not> writes pf c PDP (Sample, pu, fetch pf (map request_url (requests c)) pu)"
      "sample_product pf html (st, c) = (st, logged Sample pu pf c)"
  | (found) pu where "pu \<notin> set (visitedUrls c)" "\<not> Map_has (templates st) PDP"
      "writes pf c PDP (Sample, pu, fetch pf (map request_url (requests c)) pu)"
      "sample_product pf html (st, c)
         = (st\<lparr>templates := Map_set (templates st) PDP
               (page_of pf c (Sample, pu, fetch pf (map request_url (requests c)) pu))\<rparr>,
            logged Sample pu pf c)"
proof (cases "extractProductLinks (cheerio_load pf html)")
  case Nil
  then have "sample_product pf html (st, c) = (st, c)"
    by (simp add: sample_product_def)
  then show ?thesis by (rule same)
next
  case (Cons first rest)
  let ?pu = "resolveUrl pf c (link_url first)"
  show ?thesis
  proof (cases "Map_has (templates st) PDP \<or> ?pu \<in> set (visitedUrls c)")
    case True
    then have "sample_product pf html (st, c) = (st, c)"
      using Cons by (auto simp: sample_product_def Let_def fetchPage_visited)
    then show ?thesis by (rule same)
  next
    case False
    then have fresh: "?pu \<notin> set (visitedUrls c)" and nohas: "\<not> Map_has (templates st) PDP"
      by simp_all
    let ?resp = "fetch pf (map request_url (requests c)) ?pu"
    let ?c' = "logged Sample ?pu pf c"
    have t: "\<And>h. analyzePageTemplate pf ?c' ?pu h = analyzePageTemplate pf c ?pu h"
      by (rule analyzePageTemplate_baseUrl) simp
    show ?thesis
    proof (cases "writes pf c PDP (Sample, ?pu, ?resp)")
      case True
      then obtain h where h: "text_of ?resp = Some h" "h \<noteq> []"
        by (auto simp: writes_def truthy_def)
      then have p: "page_of pf c (Sample, ?pu, ?resp) = analyzePageTemplate pf c ?pu h"
        by (simp add: page_of_text)
      with True have "type (analyzePageTemplate pf c ?pu h) = PDP"
        by (simp add: writes_def)
      then have "sample_product pf html (st, c)
         = (st\<lparr>templates := Map_set (templates st) PDP (page_of pf c (Sample, ?pu, ?resp))\<rparr>,
            ?c')"
        using Cons nohas fresh h by (simp add: sample_product_def Let_def fetchPage_logged t p)
      with fresh nohas True show ?thesis by (rule found)
    next
      case False
      have "sample_product pf html (st, c) = (st, ?c')"
      proof (cases "text_of ?resp")
        case None
        then show ?thesis
          using Cons nohas fresh by (simp add: sample_product_def Let_def fetchPage_logged)
      next
        case (Some h)
        then have "h = [] \<or> type (analyzePageTemplate pf c ?pu h) \<noteq> PDP"
          using False by (auto simp: writes_def truthy_def page_of_text)
        then show ?thesis
          using Cons nohas fresh Some
          by (auto simp: sample_product_def Let_def fetchPage_logged t)
      qed
      with fresh False show ?thesis by (rule fetched)
    qed
  qed
qed

lemma sample_product_templates_inv:
  assumes "templates_inv pf (st, c)"
  shows "templates_inv pf (sample_product pf html (st, c))"
proof (cases rule: sample_product_written [where pf = pf and html = html and st = st and c = c])
  case same
  with assms show ?thesis by simp
next
  case (fetched pu)
  have "templates_inv pf (st, logged Sample pu pf c)"
    using assms
  proof (rule templates_inv_silent)
    fix k
    show "\<not> writes pf c k (Sample, pu, fetch pf (map request_url (requests c)) pu)"
      using fetched(2) by (auto dest: writes_Sample)
  qed simp
  with fetched show ?thesis by simp
next
  case (found pu)
  have "templates_inv pf
      (st\<lparr>templates := Map_set (templates st) PDP
           (page_of pf c (Sample, pu, fetch pf (map request_url (requests c)) pu))\<rparr>,
       logged Sample pu pf c)"
    using assms found(2,3)
  proof (rule templates_inv_written)
    fix k
    assume "writes pf c k (Sample, pu, fetch pf (map request_url (requests c)) pu)"
    then show "k = PDP" by (rule writes_Sample)
  qed simp
  with found show ?thesis by simp
qed
lemma visit_link_written:
  obtains (same) "visit_link pf l v (st, c) = (st, c)"
  | (silent) st' where "v \<notin> set (visitedUrls c)"
      "\<And>k. \<not> writes pf c k (Candidate, v, fetch pf (map request_url (requests c)) v)"
      "templates st' = templates st"
      "visit_link pf l v (st, c) = (st', logged Candidate v pf c)"
  | (category) h st' k0 where "v \<notin> set (visitedUrls c)" "Map_has (templates st) k0"
      "\<And>k. writes pf c k (Candidate, v, fetch pf (map request_url (requests c)) v) \<Longrightarrow> k = k0"
      "templates st' = templates st"
      "visit_link pf l v (st, c) = sample_product pf h (st', logged Candidate v pf c)"
  | (first) h st' k0 where "v \<notin> set (visitedUrls c)" "\<not> Map_has (templates st) k0"
      "writes pf c k0 (Candidate, v, fetch pf (map request_url (requests c)) v)"
      "\<And>k. writes pf c k (Candidate, v, fetch pf (map request_url (requests c)) v) \<Longrightarrow> k = k0"
      "templates st'
         = Map_set (templates st) k0
             (page_of pf c (Candidate, v, fetch pf (map request_url (requests c)) v))"
      "visit_link pf l v (st, c) = sample_product pf h (st', logged Candidate v pf c)"
proof (cases "v \<in> set (visitedUrls c)")
  case True
  then have "visit_link pf l v (st, c) = (st, c)"
    by (simp add: visit_link_def fetchPage_visited)
  then show ?thesis by (rule same)
next
  case fresh: False
  let ?resp = "fetch pf (map request_url (requests c)) v"
  let ?r = "(Candidate, v, ?resp)"
  let ?c' = "logged Candidate v pf c"
  have t: "\<And>h. analyzePageTemplate pf ?c' v h = analyzePageTemplate pf c v h"
    by (rule analyzePageTemplate_baseUrl) simp
  show ?thesis
  proof (cases "truthy (text_of ?resp)")
    case False
    then have e: "visit_link pf l v (st, c) = (st, ?c')"
      using fresh
      by (auto simp: visit_link_def fetchPage_logged truthy_def split: option.splits)
    have n: "\<And>k. \<not> writes pf c k ?r"
      using False unfolding writes_def by simp
    from fresh n refl e show ?thesis by (rule silent)
  next
    case True
    then obtain h where h: "text_of ?resp = Some h" "h \<noteq> []"
      by (auto simp: truthy_def)
    let ?t = "analyzePageTemplate pf c v h"
    have p: "page_of pf c ?r = ?t" using h(1) by (rule page_of_text)
    have only: "\<And>k. writes pf c k ?r \<Longrightarrow> k = type ?t"
    proof -
      fix k
      assume "writes pf c k ?r"
      then have "k = type (page_of pf c ?r)" by (rule writes_Candidate)
      then show "k = type ?t" unfolding p .
    qed
    show ?thesis
    proof (cases "type ?t = CATEGORY \<or> type ?t = PLP")
      case False
      then have e: "visit_link pf l v (st, c) = (st\<lparr>siteMap := siteMap st @ [v]\<rparr>, ?c')"
        using fresh h by (simp add: visit_link_def fetchPage_logged Let_def t)
      have n: "\<And>k. \<not> writes pf c k ?r"
      proof
        fix k
        assume w: "writes pf c k ?r"
        then have "k = type ?t" by (rule only)
        moreover from w have "k = CATEGORY \<or> k = PLP" unfolding writes_def by simp
        ultimately show False using False by simp
      qed
      have s: "templates (st\<lparr>siteMap := siteMap st @ [v]\<rparr>) = templates st" by simp
      from fresh n s e show ?thesis by (rule silent)
    next
      case cat: True
      let ?st2 = "st\<lparr>siteMap := siteMap st @ [v],
                    entities := entities st @ [category_entity l v]\<rparr>"
      show ?thesis
      proof (cases "Map_has (templates st) (type ?t)")
        case has: True
        with cat have e: "visit_link pf l v (st, c) = sample_product pf h (?st2, ?c')"
          using fresh h
          by (simp add: visit_link_def fetchPage_logged Let_def t category_entity_def)
        have s: "templates ?st2 = templates st" by simp
        from fresh has only s e show ?thesis by (rule category)
      next
        case nohas: False
        let ?st3 = "?st2\<lparr>templates := Map_set (templates st) (type ?t) ?t\<rparr>"
        from cat nohas have e: "visit_link pf l v (st, c) = sample_product pf h (?st3, ?c')"
          using fresh h
          by (simp add: visit_link_def fetchPage_logged Let_def t category_entity_def)
        have w: "writes pf c (type ?t) ?r"
          unfolding writes_def p using cat True by simp
        have s: "templates ?st3 = Map_set (templates st) (type ?t) (page_of pf c ?r)"
          unfolding p by simp
        from fresh nohas w only s e show ?thesis by (rule first)
      qed
    qed
  qed
qed

lemma visit_link_templates_inv:
  assumes "templates_inv pf (st, c)"
  shows "templates_inv pf (visit_link pf l v (st, c))"
proof (cases rule: visit_link_written [where pf = pf and l = l and v = v and st = st and c = c])
  case same
  with assms show ?thesis by simp
next
  case (silent st')
  have "templates_inv pf (st', logged Candidate v pf c)"
    using assms silent(2,3) by (rule templates_inv_silent)
  with silent(4) show ?thesis by simp
next
  case (category h st' k0)
  have "templates_inv pf (st', logged Candidate v pf c)"
    using assms category(2,3,4) by (rule templates_inv_kept)
  then show ?thesis
    unfolding category(5) by (rule sample_product_templates_inv)
next
  case (first h st' k0)
  have "templates_inv pf (st', logged Candidate v pf c)"
    using assms first(2,3,4,5) by (rule templates_inv_written)
  then show ?thesis
    unfolding first(6) by (rule sample_product_templates_inv)
qed

lemma crawl_links_templates_inv:
  "templates_inv pf s \<Longrightarrow> templates_inv pf (crawl_links pf ls s)"
proof (induction ls arbitrary: s)
  case Nil
  then show ?case by simp
next
  case (Cons l ls)
  obtain st c where s: "s = (st, c)" by (cases s)
  have "templates_inv pf (visit_link pf l (resolveUrl pf (snd s) (link_url l)) s)"
    using Cons.prems unfolding s by (rule visit_link_templates_inv)
  then show ?case
    using Cons by (simp add: Let_def)
qed

lemma writes_Robots: "\<not> writes pf c k (Robots, v, resp)"
  by (simp add: writes_def)

lemma writes_Root: "writes pf c k (Root, v, resp) = (truthy (text_of resp) \<and> k = HOME)"
  by (auto simp: writes_def)

lemma at_root_requests:
  "requests (at_root pf u n)
   = [(Robots, strip_trailing_slash u @ ''/robots.txt'', robots_response pf u),
      (Root, strip_trailing_slash u, root_response pf u)]"
  by (simp add: at_root_def)

lemma recorded_at_root:
  "recorded pf (at_root pf u n) k
   = (if truthy (text_of (root_response pf u)) \<and> k = HOME
      then Some (page_of pf (at_root pf u n) (Root, strip_trailing_slash u, root_response pf u))
      else None)"
  unfolding recorded_def at_root_requests by (simp add: writes_Robots writes_Root)

lemma templates_inv_no_home:
  assumes "\<not> truthy (text_of (root_response pf u))"
  shows "templates_inv pf (no_pages pf u, at_root pf u n)"
  using assms by (simp add: templates_inv_def recorded_at_root no_pages_def Map_get_def)

lemma templates_inv_home:
  assumes "root_response pf u = Response True h" "h \<noteq> []"
  shows "templates_inv pf
     ((no_pages pf u)\<lparr>templates :=
         [(HOME, analyzePageTemplate pf (at_root pf u n) (strip_trailing_slash u) h)]\<rparr>,
      at_root pf u n)"
proof -
  have "truthy (text_of (root_response pf u))"
    using assms by (simp add: truthy_def)
  moreover have "page_of pf (at_root pf u n) (Root, strip_trailing_slash u, root_response pf u)
      = analyzePageTemplate pf (at_root pf u n) (strip_trailing_slash u) h"
    using assms(1) by (simp add: page_of_text)
  ultimately show ?thesis
    by (simp add: templates_inv_def recorded_at_root Map_get_def)
qed

lemma analyze_templates_inv: "templates_inv pf (analyze pf u n)"
proof (cases rule: analyze_cases [where pf = pf and u = u and n = n])
  case no_home
  then show ?thesis by (simp add: templates_inv_no_home)
next
  case (home h)
  have "templates_inv pf
     ((no_pages pf u)\<lparr>templates :=
         [(HOME, analyzePageTemplate pf (at_root pf u n) (strip_trailing_slash u) h)]\<rparr>,
      at_root pf u n)"
    using home(1,2) by (rule templates_inv_home)
  then show ?thesis
    unfolding home(3) by (rule crawl_links_templates_inv)
qed
lemma crawl_links_first:
  assumes "v = resolveUrl pf c (link_url l)"
    and "int (length (visitedUrls c)) < maxPages c" "shouldVisit pf c v"
    and "v \<notin> set (visitedUrls c)"
    and "fetch pf (map request_url (requests c)) v = Response True h" "h \<noteq> []"
    and "type (analyzePageTemplate pf c v h) = CATEGORY
         \<or> type (analyzePageTemplate pf c v h) = PLP"
    and "\<not> Map_has (templates st) (type (analyzePageTemplate pf c v h))"
  shows "Map_get (templates (fst (crawl_links pf (l # ls) (st, c))))
           (type (analyzePageTemplate pf c v h))
         = Some (analyzePageTemplate pf c v h)"
proof -
  have "crawl_links pf (l # ls) (st, c) = crawl_links pf ls (visit_link pf l v (st, c))"
    using assms(1,2,3) by simp
  moreover have "Map_get (templates (fst (visit_link pf l v (st, c))))
      (type (analyzePageTemplate pf c v h)) = Some (analyzePageTemplate pf c v h)"
    using assms(4-8) by (rule visit_link_first)
  ultimately show ?thesis by (simp add: crawl_links_templates)
qed

text \<open>
  C7, as stated: the entry of a type is set by the first page classified as that type.
  On the second site the candidate page \<open>/deal\<close> is the first page classified as \<open>PDP\<close>; a
  candidate page is recorded only as \<open>CATEGORY\<close> or \<open>PLP\<close>, and the entry under \<open>PDP\<close> is the
  product sample fetched later. On the example site the root page is the first page
  classified as \<open>CATEGORY\<close>; it is stored under \<open>HOME\<close>, the entry under \<open>CATEGORY\<close> is a
  later page, and the map holds two templates of the type \<open>CATEGORY\<close>.
\<close>

theorem first_page_of_type_not_recorded:
  "map request_url (page_requests (snd (analyze outlet ''https://example.com/'' 10)))
     = [''https://example.com'', ''https://example.com/'', ''https://example.com/deal'',
        ''https://example.com/shoes'', ''https://example.com/product/1234'']
   \<and> (Candidate, ''https://example.com/deal'', Response True ''<product>'')
       \<in> set (requests (snd (analyze outlet ''https://example.com/'' 10)))
   \<and> type (analyzePageTemplate outlet (SiteCrawler_new ''https://example.com/'' 10)
              ''https://example.com/deal'' ''<product>'') = PDP
   \<and> map_option exampleUrls
         (Map_get (templates (fst (analyze outlet ''https://example.com/'' 10))) PDP)
       = Some [''https://example.com/product/1234'']
   \<and> map (type \<circ> snd) (templates (fst (analyze shop ''https://example.com'' 10)))
       = [CATEGORY, CATEGORY, PDP]
   \<and> map_option exampleUrls
         (Map_get (templates (fst (analyze shop ''https://example.com'' 10))) CATEGORY)
       = Some [''https://example.com/shoes'']"
proof -
  have "type (analyzePageTemplate outlet (SiteCrawler_new ''https://example.com/'' 10)
              ''https://example.com/deal'' ''<product>'') = PDP"
    by code_simp
  then show ?thesis
    unfolding shop_run outlet_run
    by (simp add: page_requests_def request_url_def Map_get_def)
qed

text \<open>
  C7, amended: the template map of a run has at most one entry for a key, and an entry
  that is in the map stays as it is, whatever links the loop visits afterwards. The entry
  of a key is the template of the first request that writes it: under \<open>HOME\<close> the root
  page, whatever its type; under \<open>CATEGORY\<close> (or \<open>PLP\<close>) the first candidate page of that
  type; under \<open>PDP\<close> the first product sample of that type; no other key has an entry. And
  the loop does record: a link that it visits within the budget, whose page is of the
  type \<open>CATEGORY\<close> (or \<open>PLP\<close>) while the map has no such key, has its template in the map
  at the end.
\<close>

theorem templates_of_run:
  "Map_get (templates (fst (analyze pf u n))) k = recorded pf (snd (analyze pf u n)) k
   \<and> distinct (map fst (templates (fst (analyze pf u n))))
   \<and> (Map_get (templates (fst s)) k' = Some t
      \<longrightarrow> Map_get (templates (fst (crawl_links pf ls s))) k' = Some t)
   \<and> (v = resolveUrl pf c (link_url l)
        \<and> int (length (visitedUrls c)) < maxPages c \<and> shouldVisit pf c v
        \<and> v \<notin> set (visitedUrls c)
        \<and> fetch pf (map request_url (requests c)) v = Response True h \<and> h \<noteq> []
        \<and> (type (analyzePageTemplate pf c v h) = CATEGORY
            \<or> type (analyzePageTemplate pf c v h) = PLP)
        \<and> \<not> Map_has (templates st) (type (analyzePageTemplate pf c v h))
      \<longrightarrow> Map_get (templates (fst (crawl_links pf (l # ls') (st, c))))
            (type (analyzePageTemplate pf c v h))
          = Some (analyzePageTemplate pf c v h))"
proof (intro conjI impI)
  show "Map_get (templates (fst (analyze pf u n))) k = recorded pf (snd (analyze pf u n)) k"
    using analyze_templates_inv [of pf u n] by (simp add: templates_inv_def)
next
  show "distinct (map fst (templates (fst (analyze pf u n))))"
    using analyze_inv [of pf u n] by (simp add: crawl_inv_def)
next
  assume "Map_get (templates (fst s)) k' = Some t"
  then show "Map_get (templates (fst (crawl_links pf ls s))) k' = Some t"
    by (rule crawl_links_templates)
next
  assume "v = resolveUrl pf c (link_url l)
        \<and> int (length (visitedUrls c)) < maxPages c \<and> shouldVisit pf c v
        \<and> v \<notin> set (visitedUrls c)
        \<and> fetch pf (map request_url (requests c)) v = Response True h \<and> h \<noteq> []
        \<and> (type (analyzePageTemplate pf c v h) = CATEGORY
            \<or> type (analyzePageTemplate pf c v h) = PLP)
        \<and> \<not> Map_has (templates st) (type (analyzePageTemplate pf c v h))"
  then show "Map_get (templates (fst (crawl_links pf (l # ls') (st, c))))
            (type (analyzePageTemplate pf c v h))
          = Some (analyzePageTemplate pf c v h)"
    by (elim conjE) (rule crawl_links_first; assumption)
qed

lemma shop_at_root_visited:
  "visitedUrls (at_root shop ''https://example.com'' 10) = [''https://example.com'']"
  by code_simp

lemma shop_at_root_budget:
  "int (length (visitedUrls (at_root shop ''https://example.com'' 10)))
   < maxPages (at_root shop ''https://example.com'' 10)"
  by code_simp

lemma shop_shoes_resolve:
  "resolveUrl shop (at_root shop ''https://example.com'' 10) ''/shoes''
   = ''https://example.com/shoes''"
  by code_simp

lemma shop_shoes_shouldVisit:
  "shouldVisit shop (at_root shop ''https://example.com'' 10) ''https://example.com/shoes''"
  by code_simp

lemma shop_shoes_fetch:
  "fetch shop (map request_url (requests (at_root shop ''https://example.com'' 10)))
     ''https://example.com/shoes'' = Response True ''<shoes>''"
  by code_simp

lemma shop_shoes_template:
  "analyzePageTemplate shop (at_root shop ''https://example.com'' 10)
     ''https://example.com/shoes'' ''<shoes>''
   = \<lparr>type = CATEGORY, urlPattern = ''/shoes'', exampleUrls = [''https://example.com/shoes''],
      characteristics =
        [''Has product grid'', ''Has filters/facets'', ''Has multiple product links''],
      detectedElements = []\<rparr>"
  by code_simp

lemma shop_no_templates: "templates (no_pages shop ''https://example.com'') = []"
  by (simp add: no_pages_def)

theorem templates_of_run_witness:
  "recorded outlet (snd (analyze outlet ''https://example.com/'' 10)) PDP
     = Some \<lparr>type = PDP, urlPattern = ''/product/:id'',
             exampleUrls = [''https://example.com/product/1234''],
             characteristics =
               [''Has product title'', ''Has add to cart button'', ''Has product images''],
             detectedElements = []\<rparr>
   \<and> Map_get (templates (fst (crawl_links shop (extractCategoryLinks (cheerio_load shop ''<home>''))
        ((no_pages shop ''https://example.com'')\<lparr>templates :=
            [(HOME, analyzePageTemplate shop (at_root shop ''https://example.com'' 10)
                      ''https://example.com'' ''<home>'')]\<rparr>,
         at_root shop ''https://example.com'' 10)))) HOME
       = Some (analyzePageTemplate shop (at_root shop ''https://example.com'' 10)
                 ''https://example.com'' ''<home>'')
   \<and> map_option urlPattern
        (Map_get (templates (fst (crawl_links shop
            [\<lparr>link_text = ''Shoes'', link_url = ''/shoes''\<rparr>,
             \<lparr>link_text = ''Sale'', link_url = ''/sale''\<rparr>]
            (no_pages shop ''https://example.com'', at_root shop ''https://example.com'' 10))))
          CATEGORY)
       = Some ''/shoes''"
proof -
  let ?c = "at_root shop ''https://example.com'' 10"
  let ?st = "no_pages shop ''https://example.com''"
  let ?home = "analyzePageTemplate shop ?c ''https://example.com'' ''<home>''"
  note t = templates_of_run [where pf = shop and s = "(?st\<lparr>templates := [(HOME, ?home)]\<rparr>, ?c)"
      and k' = HOME and t = ?home
      and ls = "extractCategoryLinks (cheerio_load shop ''<home>'')"
      and v = "''https://example.com/shoes''" and c = ?c and h = "''<shoes>''" and st = ?st
      and l = "\<lparr>link_text = ''Shoes'', link_url = ''/shoes''\<rparr>"
      and ls' = "[\<lparr>link_text = ''Sale'', link_url = ''/sale''\<rparr>]"]
  have "Map_get (templates (fst (analyze outlet ''https://example.com/'' 10))) PDP
      = recorded outlet (snd (analyze outlet ''https://example.com/'' 10)) PDP"
    by (rule templates_of_run [where pf = outlet and u = "''https://example.com/''" and n = 10
          and k = PDP, THEN conjunct1])
  then have sample: "recorded outlet (snd (analyze outlet ''https://example.com/'' 10)) PDP
     = Some \<lparr>type = PDP, urlPattern = ''/product/:id'',
             exampleUrls = [''https://example.com/product/1234''],
             characteristics =
               [''Has product title'', ''Has add to cart button'', ''Has product images''],
             detectedElements = []\<rparr>"
    unfolding outlet_run by (simp add: Map_get_def)
  have kept: "Map_get (templates (fst (crawl_links shop
        (extractCategoryLinks (cheerio_load shop ''<home>''))
        (?st\<lparr>templates := [(HOME, ?home)]\<rparr>, ?c)))) HOME = Some ?home"
    by (rule t [THEN conjunct2, THEN conjunct2, THEN conjunct1, rule_format])
      (simp add: Map_get_def)
  have "Map_get (templates (fst (crawl_links shop
            [\<lparr>link_text = ''Shoes'', link_url = ''/shoes''\<rparr>,
             \<lparr>link_text = ''Sale'', link_url = ''/sale''\<rparr>] (?st, ?c))))
          (type (analyzePageTemplate shop ?c ''https://example.com/shoes'' ''<shoes>''))
        = Some (analyzePageTemplate shop ?c ''https://example.com/shoes'' ''<shoes>'')"
    by (rule t [THEN conjunct2, THEN conjunct2, THEN conjunct2, rule_format])
      (simp add: shop_shoes_resolve shop_at_root_budget shop_shoes_shouldVisit
        shop_at_root_visited shop_shoes_fetch shop_shoes_template shop_no_templates Map_has_def
        at_root_fields(2))
  then have category: "map_option urlPattern
        (Map_get (templates (fst (crawl_links shop
            [\<lparr>link_text = ''Shoes'', link_url = ''/shoes''\<rparr>,
             \<lparr>link_text = ''Sale'', link_url = ''/sale''\<rparr>] (?st, ?c)))) CATEGORY)
        = Some ''/shoes''"
    by (simp add: shop_shoes_template)
  from sample kept category show ?thesis by (intro conjI)
qed

end
